theory Spec2Isabelle
  imports Main "HOL-Library.Word" "HOL-Library.AList"
begin

unbundle bit_operations_syntax

section \<open>Python values and exceptions\<close>

text \<open>
  The state transition is Python. Integers are unbounded (\<open>int\<close>), \<open>//\<close> is floor division
  (HOL's \<open>div\<close> on \<open>int\<close>), byte strings are lists of 8-bit words, and every exception the
  code can raise is a value: a function that can raise returns \<open>error + 'a\<close>, with \<open>Inl\<close>
  for the exception.
\<close>

datatype error =
    ValidationError
  | IndexError
  | KeyError
  | ZeroDivisionError
  | AssertionError
  | OverflowError
  | ValueError

type_synonym bytes = "8 word list"

definition bnd :: "error + 'a \<Rightarrow> ('a \<Rightarrow> error + 'b) \<Rightarrow> error + 'b" where
  "bnd m f = (case m of Inl e \<Rightarrow> Inl e | Inr x \<Rightarrow> f x)"

text \<open>The exception of a run that raised: the driver returns \<open>None\<close> for a run without
  end, \<open>Some (Inl e)\<close> for the exception \<open>e\<close> and \<open>Some (Inr p)\<close> for a result.\<close>

definition raised :: "(error + 'a) option \<Rightarrow> error option" where
  "raised r = (case r of Some (Inl e) \<Rightarrow> Some e | _ \<Rightarrow> None)"

text \<open>\<open>xs[i]\<close>: a negative index counts from the end, an index out of range raises.\<close>

definition py_index :: "nat \<Rightarrow> int \<Rightarrow> error + nat" where
  "py_index n i =
     (let j = (if i < 0 then int n + i else i)
      in if 0 \<le> j \<and> j < int n then Inr (nat j) else Inl IndexError)"

definition py_get :: "'a list \<Rightarrow> int \<Rightarrow> error + 'a" where
  "py_get xs i = bnd (py_index (length xs) i) (\<lambda>j. Inr (xs ! j))"

text \<open>\<open>xs[i] = v\<close>, with the same index rule.\<close>

definition py_set :: "'a list \<Rightarrow> int \<Rightarrow> 'a \<Rightarrow> error + 'a list" where
  "py_set xs i v = bnd (py_index (length xs) i) (\<lambda>j. Inr (xs[j := v]))"

text \<open>The slices \<open>xs[c:]\<close> and \<open>xs[:c]\<close>: a negative bound counts from the end, and
  bounds are clamped to the list.\<close>

definition py_slice_from :: "'a list \<Rightarrow> int \<Rightarrow> 'a list" where
  "py_slice_from xs c = (if c < 0 then drop (nat (int (length xs) + c)) xs else drop (nat c) xs)"

definition py_slice_to :: "'a list \<Rightarrow> int \<Rightarrow> 'a list" where
  "py_slice_to xs c = (if c < 0 then take (nat (int (length xs) + c)) xs else take (nat c) xs)"

definition py_floordiv :: "int \<Rightarrow> int \<Rightarrow> error + int" where
  "py_floordiv a b = (if b = 0 then Inl ZeroDivisionError else Inr (a div b))"

definition py_mod :: "int \<Rightarrow> int \<Rightarrow> error + int" where
  "py_mod a b = (if b = 0 then Inl ZeroDivisionError else Inr (a mod b))"

text \<open>\<open>range(a, b)\<close> and \<open>enumerate(xs)\<close>.\<close>

definition py_range :: "int \<Rightarrow> int \<Rightarrow> int list" where
  "py_range a b = [a..b - 1]"

definition enumerate_int :: "'a list \<Rightarrow> (int \<times> 'a) list" where
  "enumerate_int xs = zip (map int [0..<length xs]) xs"

text \<open>\<open>n.to_bytes(len, byteorder='big')\<close>: raises OverflowError for a negative \<open>n\<close> and
  for one that does not fit.\<close>

definition to_bytes :: "int \<Rightarrow> nat \<Rightarrow> error + bytes" where
  "to_bytes n len =
     (if n < 0 \<or> 256 ^ len \<le> n then Inl OverflowError
      else Inr (map (\<lambda>k. word_of_int (n div 256 ^ (len - 1 - k))) [0..<len]))"

text \<open>A loop over a list whose body can raise: the first exception ends the loop.\<close>

fun foldM :: "('s \<Rightarrow> 'a \<Rightarrow> error + 's) \<Rightarrow> 's \<Rightarrow> 'a list \<Rightarrow> error + 's" where
  "foldM f s [] = Inr s"
| "foldM f s (x # xs) = bnd (f s x) (\<lambda>s'. foldM f s' xs)"

text \<open>A list comprehension whose element expression can raise.\<close>

fun mapM :: "('a \<Rightarrow> error + 'b) \<Rightarrow> 'a list \<Rightarrow> error + 'b list" where
  "mapM f [] = Inr []"
| "mapM f (x # xs) = bnd (f x) (\<lambda>y. bnd (mapM f xs) (\<lambda>ys. Inr (y # ys)))"

section \<open>Data model\<close>

record ValidatorRecord =
  pubkey :: int
  balance :: int
  start_dynasty :: int
  end_dynasty :: int

text \<open>The field \<open>shard_id\<close> of a committee entry is \<open>sac_shard_id\<close> here, and the fields
  \<open>slot\<close> and \<open>hash\<close> of a crosslink record are \<open>crosslink_slot\<close> and \<open>crosslink_hash\<close>:
  record fields are global names, and the attestation record has \<open>shard_id\<close> and \<open>slot\<close> too.\<close>

record ShardAndCommittee =
  sac_shard_id :: int
  committee :: "int list"

record CrosslinkRecord =
  dynasty :: int
  crosslink_slot :: int
  crosslink_hash :: bytes

record AttestationRecord =
  slot :: int
  shard_id :: int
  oblique_parent_hashes :: "bytes list"
  shard_block_hash :: bytes
  attester_bitfield :: bytes
  justified_slot :: int
  justified_block_hash :: bytes
  aggregate_sig :: "int list"

record Block =
  parent_hash :: bytes
  slot_number :: int
  attestations :: "AttestationRecord list"
  randao_reveal :: bytes
  pow_chain_ref :: bytes
  active_state_root :: bytes
  crystallized_state_root :: bytes

record Chain =
  head :: "Block option"
  blocks :: "Block list"

text \<open>An entry of the vote cache, in the code a dict with the two keys
  \<open>'voter_indices'\<close> and \<open>'total_voter_deposits'\<close>.\<close>

record VoteCacheEntry =
  voter_indices :: "int set"
  total_voter_deposits :: int

type_synonym BlockVoteCache = "bytes \<rightharpoonup> VoteCacheEntry"

record ActiveState =
  pending_attestations :: "AttestationRecord list"
  recent_block_hashes :: "bytes list"
  block_vote_cache :: BlockVoteCache
  chain :: Chain

record CrystallizedState =
  validators :: "ValidatorRecord list"
  last_state_recalc :: int
  shard_and_committee_for_slots :: "ShardAndCommittee list list"
  last_justified_slot :: int
  justified_streak :: int
  last_finalized_slot :: int
  current_dynasty :: int
  crosslink_records :: "CrosslinkRecord list"
  dynasty_seed :: bytes
  dynasty_start :: int

text \<open>The configuration dict, with the keys the transition reads.\<close>

record Config =
  cycle_length :: int
  min_dynasty_length :: int
  shard_count :: int
  base_reward_quotient :: int
  sqrt_e_drop_time :: int
  slot_duration :: int

definition WEI_PER_ETH :: int where
  "WEI_PER_ETH = 10 ^ 18"


definition dict_get :: "('k \<rightharpoonup> 'v) \<Rightarrow> 'k \<Rightarrow> error + 'v" where
  "dict_get m k = (case m k of None \<Rightarrow> Inl KeyError | Some v \<Rightarrow> Inr v)"

text \<open>A comprehension \<open>[g x for x in xs if p x]\<close> whose condition and element can raise.\<close>

fun comprehension :: "('a \<Rightarrow> error + bool) \<Rightarrow> ('a \<Rightarrow> error + 'b) \<Rightarrow> 'a list \<Rightarrow> error + 'b list" where
  "comprehension p g [] = Inr []"
| "comprehension p g (x # xs) =
     bnd (p x) (\<lambda>ok.
       if ok then bnd (g x) (\<lambda>y. bnd (comprehension p g xs) (\<lambda>ys. Inr (y # ys)))
       else comprehension p g xs)"

text \<open>\<open>r[index] += d\<close>: the element is read first, then \<open>d\<close> is computed, then the
  element is written.\<close>

definition add_at :: "int list \<Rightarrow> int \<Rightarrow> (error + int) \<Rightarrow> error + int list" where
  "add_at r index d = bnd (py_get r index) (\<lambda>old. bnd d (\<lambda>v. py_set r index (old + v)))"

section \<open>External collaborators\<close>

text \<open>
  The BLS primitives, the digest, the shuffling function, the hash of a block
  (\<open>block.hash\<close>), the two lookups of the chain and the reconstruction of the signed parent
  hashes are not part of the state transition: they are parameters of the model, and
  every theorem holds for any choice of them. \<open>get_block_by_hash\<close> and
  \<open>get_block_by_slot_number\<close> return \<open>None\<close> when the chain has no such block.

  So is the one computation in floating point: \<open>penalty_quotient a b\<close> is what
  \<open>q = (a / b) ** 2; assert q.is_integer(); int(q)\<close> gives in Python's floating-point
  arithmetic, the integer or the exception (ZeroDivisionError, OverflowError, or the
  AssertionError for a quotient that is not an integer).
\<close>

record External =
  blake :: "bytes \<Rightarrow> bytes"
  bls_verify :: "bytes \<Rightarrow> int \<Rightarrow> int list \<Rightarrow> bool"
  bls_aggregate_pubs :: "int list \<Rightarrow> int"
  get_new_shuffling ::
    "bytes \<Rightarrow> ValidatorRecord list \<Rightarrow> int \<Rightarrow> int \<Rightarrow> ShardAndCommittee list list"
  block_hash :: "Block \<Rightarrow> bytes"
  get_block_by_hash :: "Chain \<Rightarrow> bytes \<Rightarrow> Block option"
  get_block_by_slot_number :: "Chain \<Rightarrow> int \<Rightarrow> Block option"
  get_signed_parent_hashes ::
    "ActiveState \<Rightarrow> Block \<Rightarrow> AttestationRecord \<Rightarrow> Config \<Rightarrow> error + bytes list"
  penalty_quotient :: "int \<Rightarrow> int \<Rightarrow> error + int"

section \<open>Helpers\<close>

text \<open>Modelled from the spec: utils/bitfield.py is not under src/. The spec gives
  \<open>get_bitfield_length(n) = (n + 7) / 8\<close>, \<open>has_voted(bf, i)\<close> as bit \<open>i\<close> (MSB-first
  within byte \<open>i / 8\<close>) of \<open>bf\<close>, \<open>or_bitfields\<close> as the elementwise OR of bitfields that
  must share their length, and \<open>get_empty_bitfield(n)\<close> as zero bytes of length
  \<open>get_bitfield_length(n)\<close>. Reading a byte that the bitfield does not have is the
  IndexError of indexing Python bytes; \<open>or_bitfields\<close> of no bitfield or of bitfields of
  different lengths raises.\<close>

definition get_bitfield_length :: "int \<Rightarrow> int" where
  "get_bitfield_length n = (n + 7) div 8"

definition has_voted :: "bytes \<Rightarrow> int \<Rightarrow> error + bool" where
  "has_voted bf i = bnd (py_get bf (i div 8)) (\<lambda>b. Inr (bit b (nat (7 - i mod 8))))"

definition or_bitfields :: "bytes list \<Rightarrow> error + bytes" where
  "or_bitfields bfs =
     (case bfs of
        [] \<Rightarrow> Inl IndexError
      | b # rest \<Rightarrow>
          if \<forall>x \<in> set rest. length x = length b
          then Inr (foldl (\<lambda>acc x. map2 (OR) acc x) b rest)
          else Inl ValueError)"

definition get_empty_bitfield :: "int \<Rightarrow> bytes" where
  "get_empty_bitfield n = replicate (nat (get_bitfield_length n)) 0"

text \<open>Modelled from the spec: state/helpers.py is not under src/. The spec gives
  \<open>get_active_validator_indices(dynasty, validators)\<close> as the indices \<open>i\<close> with
  \<open>start_dynasty \<le> dynasty < end_dynasty\<close>.\<close>

definition get_active_validator_indices :: "int \<Rightarrow> ValidatorRecord list \<Rightarrow> int list" where
  "get_active_validator_indices dyn vs =
     map fst (filter (\<lambda>(i, v). start_dynasty v \<le> dyn \<and> dyn < end_dynasty v) (enumerate_int vs))"

text \<open>Modelled from the spec: state/crystallized_state.py is not under src/. The spec
  gives the derived \<open>total_deposits\<close> as the sum of the balances of the validators active
  in \<open>current_dynasty\<close>.\<close>

definition total_deposits :: "CrystallizedState \<Rightarrow> int" where
  "total_deposits cs =
     sum_list (map (\<lambda>i. balance (validators cs ! nat i))
       (get_active_validator_indices (current_dynasty cs) (validators cs)))"

text \<open>Modelled from the spec: state/helpers.py is not under src/. The spec gives
  \<open>get_shards_and_committees_for_slot(cs, slot)\<close> as the entry of
  \<open>shard_and_committee_for_slots\<close> at \<open>slot - (last_state_recalc - cycle_length)\<close>, for a
  slot that must fall in \<open>[last_state_recalc - cycle_length, last_state_recalc + cycle_length)\<close>;
  a slot outside is an assertion failure here.\<close>

definition get_shards_and_committees_for_slot ::
    "CrystallizedState \<Rightarrow> int \<Rightarrow> Config \<Rightarrow> error + ShardAndCommittee list" where
  "get_shards_and_committees_for_slot cs s config =
     (let start = last_state_recalc cs - cycle_length config
      in if start \<le> s \<and> s < start + 2 * cycle_length config
         then py_get (shard_and_committee_for_slots cs) (s - start)
         else Inl AssertionError)"

text \<open>Modelled from the spec: state/helpers.py is not under src/. The spec gives
  \<open>get_attestation_indices(cs, att)\<close> as the committee for \<open>(att.slot, att.shard_id)\<close>:
  the committee of the first entry of the slot's schedule with that shard. The spec does
  not say what a shard without an entry gives; the model gives the empty committee.\<close>

definition get_attestation_indices ::
    "CrystallizedState \<Rightarrow> AttestationRecord \<Rightarrow> Config \<Rightarrow> error + int list" where
  "get_attestation_indices cs att config =
     bnd (get_shards_and_committees_for_slot cs (slot att) config) (\<lambda>sacs.
       case filter (\<lambda>x. sac_shard_id x = shard_id att) sacs of
         [] \<Rightarrow> Inr []
       | x # _ \<Rightarrow> Inr (committee x))"

text \<open>Modelled from the spec: state/helpers.py is not under src/. The spec gives
  \<open>get_proposer_position(parent_block, cs)\<close> as \<open>(proposer_index_in_committee, shard_id)\<close>
  where the committee is
  \<open>shard_and_committee_for_slots[parent_block.slot_number - (last_state_recalc - cycle_length)][0]\<close>
  and \<open>proposer_index_in_committee = parent_block.slot_number mod len(committee)\<close>.\<close>

definition get_proposer_position ::
    "Block \<Rightarrow> CrystallizedState \<Rightarrow> Config \<Rightarrow> error + (int \<times> int)" where
  "get_proposer_position parent_block cs config =
     bnd (py_get (shard_and_committee_for_slots cs)
            (slot_number parent_block - (last_state_recalc cs - cycle_length config))) (\<lambda>sacs.
     bnd (py_get sacs 0) (\<lambda>sac.
     bnd (py_mod (slot_number parent_block) (int (length (committee sac)))) (\<lambda>p.
       Inr (p, sac_shard_id sac))))"

text \<open>Modelled from the spec: state/helpers.py is not under src/. The spec gives
  \<open>get_new_recent_block_hashes(prev, parent_slot, new_slot, parent_hash)\<close> as \<open>prev\<close>
  shifted left by \<open>new_slot - parent_slot\<close> positions and padded on the right with
  copies of \<open>parent_hash\<close>, the output as long as the input.\<close>

definition get_new_recent_block_hashes :: "bytes list \<Rightarrow> int \<Rightarrow> int \<Rightarrow> bytes \<Rightarrow> bytes list" where
  "get_new_recent_block_hashes prev parent_slot new_slot h =
     (let d = nat (new_slot - parent_slot)
      in drop d prev @ replicate (min d (length prev)) h)"

text \<open>Modelled from the spec: state/helpers.py is not under src/. The spec gives
  \<open>int_sqrt(x)\<close> as the integer floor of the square root, Newton-iterated to
  convergence: from \<open>x = n\<close> and \<open>y = (x + 1) / 2\<close>, while \<open>y < x\<close> the pair becomes
  \<open>(y, (y + n / y) / 2)\<close>. It is only called on a non-negative number.\<close>

function int_sqrt_loop :: "nat \<Rightarrow> nat \<Rightarrow> nat \<Rightarrow> nat" where
  "int_sqrt_loop n x y = (if y < x then int_sqrt_loop n y ((y + n div y) div 2) else x)"
  by pat_completeness auto
termination
  by (relation "measure (\<lambda>(n, x, y). x)") auto

definition int_sqrt :: "int \<Rightarrow> int" where
  "int_sqrt n = int (int_sqrt_loop (nat n) (nat n) ((nat n + 1) div 2))"

section \<open>Validation\<close>

definition validate_block_pre_processing_conditions ::
    "Block \<Rightarrow> Block \<Rightarrow> CrystallizedState \<Rightarrow> Config \<Rightarrow> bool" where
  "validate_block_pre_processing_conditions block parent_block cs config = True"

text \<open>The ValidationError for a first attestation that is not the proposer's is built
  with a message that calls \<open>has_voted\<close> once more, so this call comes before the raise.\<close>

definition validate_parent_block_proposer ::
    "Block \<Rightarrow> Block \<Rightarrow> CrystallizedState \<Rightarrow> Config \<Rightarrow> error + unit" where
  "validate_parent_block_proposer block parent_block cs config =
     (if slot_number block = 0 then Inr ()
      else
        bnd (get_proposer_position parent_block cs config) (\<lambda>(proposer_index_in_committee, sid).
          if length (attestations block) = 0 then Inl ValidationError
          else
            let attestation = attestations block ! 0 in
            bnd (if shard_id attestation = sid \<and> slot attestation = slot_number parent_block
                 then has_voted (attester_bitfield attestation) proposer_index_in_committee
                 else Inr False) (\<lambda>is_proposer_attestation.
              if \<not> is_proposer_attestation
              then bnd (has_voted (attester_bitfield attestation) proposer_index_in_committee)
                     (\<lambda>_. Inl ValidationError)
              else Inr ())))"

definition validate_attestation ::
    "External \<Rightarrow> CrystallizedState \<Rightarrow> ActiveState \<Rightarrow> AttestationRecord \<Rightarrow> Block \<Rightarrow> Block \<Rightarrow> Config
      \<Rightarrow> error + bool" where
  "validate_attestation ext cs active attestation block parent_block config =
     (if \<not> slot attestation \<le> slot_number parent_block then Inl ValidationError
      else if \<not> slot attestation \<ge> max (slot_number parent_block - cycle_length config + 1) 0
        then Inl ValidationError
      else if justified_slot attestation > last_justified_slot cs then Inl ValidationError
      else
        case get_block_by_hash ext (chain active) (justified_block_hash attestation) of
          None \<Rightarrow> Inl ValidationError
        | Some justified_block \<Rightarrow>
            if slot_number justified_block \<noteq> justified_slot attestation then Inl ValidationError
            else
              bnd (get_signed_parent_hashes ext active block attestation config) (\<lambda>parent_hashes.
              bnd (get_attestation_indices cs attestation config) (\<lambda>attestation_indices.
                if \<not> int (length (attester_bitfield attestation))
                      = get_bitfield_length (int (length attestation_indices))
                then Inl ValidationError
                else
                  let last_bit = int (length attestation_indices) in
                  bnd (if last_bit mod 8 \<noteq> 0
                       then foldM (\<lambda>_ i.
                              bnd (has_voted (attester_bitfield attestation) (last_bit + i)) (\<lambda>v.
                                if v then Inl ValidationError else Inr ()))
                              () (py_range 0 (8 - last_bit mod 8))
                       else Inr ()) (\<lambda>_.
                  bnd (comprehension
                         (\<lambda>(committee_index, validator_index).
                            has_voted (attester_bitfield attestation) committee_index)
                         (\<lambda>(committee_index, validator_index).
                            bnd (py_get (validators cs) validator_index) (\<lambda>v. Inr (pubkey v)))
                         (enumerate_int attestation_indices)) (\<lambda>pub_keys.
                  bnd (to_bytes (slot attestation) 8) (\<lambda>b1.
                  bnd (to_bytes (shard_id attestation) 2) (\<lambda>b2.
                  bnd (to_bytes (justified_slot attestation) 8) (\<lambda>b3.
                    let message = blake ext
                          (b1 @ concat parent_hashes @ b2 @ shard_block_hash attestation @ b3) in
                    if \<not> bls_verify ext message (bls_aggregate_pubs ext pub_keys)
                           (aggregate_sig attestation)
                    then Inl ValidationError
                    else Inr True))))))))"

section \<open>Block processing\<close>

text \<open>The body of the inner loop of \<open>get_updated_block_vote_cache\<close>: the vote of the
  committee member at \<open>committee_index\<close> for the parent hash \<open>h\<close>.\<close>

definition add_vote ::
    "CrystallizedState \<Rightarrow> AttestationRecord \<Rightarrow> bytes \<Rightarrow> BlockVoteCache \<Rightarrow> int \<times> int
      \<Rightarrow> error + BlockVoteCache" where
  "add_vote cs attestation h c member =
     (case member of (committee_index, validator_index) \<Rightarrow>
        bnd (has_voted (attester_bitfield attestation) committee_index) (\<lambda>voted.
          if \<not> voted then Inr c
          else
            bnd (dict_get c h) (\<lambda>entry.
              if validator_index \<in> voter_indices entry then Inr c
              else
                bnd (py_get (validators cs) validator_index) (\<lambda>v.
                  Inr (c(h \<mapsto> \<lparr>voter_indices = insert validator_index (voter_indices entry),
                                total_voter_deposits =
                                  total_voter_deposits entry + balance v\<rparr>))))))"

definition get_updated_block_vote_cache ::
    "External \<Rightarrow> CrystallizedState \<Rightarrow> ActiveState \<Rightarrow> AttestationRecord \<Rightarrow> Block \<Rightarrow> BlockVoteCache
      \<Rightarrow> Config \<Rightarrow> error + BlockVoteCache" where
  "get_updated_block_vote_cache ext cs active attestation block cache config =
     bnd (get_signed_parent_hashes ext active block attestation config) (\<lambda>parent_hashes.
     bnd (get_attestation_indices cs attestation config) (\<lambda>attestation_indices.
       foldM (\<lambda>new_cache h.
           if h \<in> set (oblique_parent_hashes attestation) then Inr new_cache
           else
             let cache1 =
                   (if new_cache h = None
                    then new_cache(h \<mapsto> \<lparr>voter_indices = {}, total_voter_deposits = 0\<rparr>)
                    else new_cache)
             in foldM (add_vote cs attestation h) cache1 (enumerate_int attestation_indices))
         cache parent_hashes))"

definition process_block ::
    "External \<Rightarrow> CrystallizedState \<Rightarrow> ActiveState \<Rightarrow> Block \<Rightarrow> Block \<Rightarrow> Config
      \<Rightarrow> error + ActiveState" where
  "process_block ext cs active block parent_block config =
     bnd (validate_parent_block_proposer block parent_block cs config) (\<lambda>_.
     bnd (foldM (\<lambda>new_block_vote_cache attestation.
             bnd (validate_attestation ext cs active attestation block parent_block config) (\<lambda>_.
               get_updated_block_vote_cache ext cs active attestation block
                 new_block_vote_cache config))
           (block_vote_cache active) (attestations block)) (\<lambda>new_block_vote_cache.
       Inr \<lparr>pending_attestations = pending_attestations active @ attestations block,
            recent_block_hashes = recent_block_hashes active,
            block_vote_cache = new_block_vote_cache,
            chain = \<lparr>head = Some block, blocks = blocks (chain active) @ [block]\<rparr>\<rparr>))"

section \<open>Crosslinks\<close>

text \<open>One pass of the loop over the pending attestations. The state of the loop is the
  dict \<open>total_attestation_balance\<close> and the list \<open>crosslinks\<close>. The crosslink of the shard
  is read only when the balance test has passed (\<open>and\<close> evaluates its right operand only
  then).\<close>

definition crosslink_step ::
    "CrystallizedState \<Rightarrow> Config \<Rightarrow> ((int \<times> bytes) \<rightharpoonup> int) \<times> CrosslinkRecord list
      \<Rightarrow> AttestationRecord \<Rightarrow> error + (((int \<times> bytes) \<rightharpoonup> int) \<times> CrosslinkRecord list)" where
  "crosslink_step cs config st attestation =
     (let total_attestation_balance = fst st;
          crosslinks = snd st;
          shard_tuple = (shard_id attestation, shard_block_hash attestation);
          tab1 = (if total_attestation_balance shard_tuple = None
                  then total_attestation_balance(shard_tuple \<mapsto> 0)
                  else total_attestation_balance)
      in
        bnd (get_attestation_indices cs attestation config) (\<lambda>attestation_indices.
        bnd (mapM (\<lambda>index. bnd (py_get (validators cs) index) (\<lambda>v. Inr (balance v)))
               attestation_indices) (\<lambda>committee_balances.
          let total_committee_balance = sum_list committee_balances in
        bnd (dict_get tab1 shard_tuple) (\<lambda>old.
        bnd (comprehension
               (\<lambda>(in_cycle_slot_height, index).
                  has_voted (attester_bitfield attestation) in_cycle_slot_height)
               (\<lambda>(in_cycle_slot_height, index).
                  bnd (py_get (validators cs) index) (\<lambda>v. Inr (balance v)))
               (enumerate_int attestation_indices)) (\<lambda>voted_balances.
          let new_total = old + sum_list voted_balances;
              tab2 = tab1(shard_tuple \<mapsto> new_total)
          in
            if 3 * new_total \<ge> 2 * total_committee_balance
            then
              bnd (py_get crosslinks (shard_id attestation)) (\<lambda>c.
                if current_dynasty cs > dynasty c
                then
                  bnd (py_set crosslinks (shard_id attestation)
                         \<lparr>dynasty = current_dynasty cs,
                          crosslink_slot = last_state_recalc cs + cycle_length config,
                          crosslink_hash = shard_block_hash attestation\<rparr>) (\<lambda>crosslinks'.
                    Inr (tab2, crosslinks'))
                else Inr (tab2, crosslinks))
            else Inr (tab2, crosslinks))))))"

definition process_updated_crosslinks ::
    "CrystallizedState \<Rightarrow> ActiveState \<Rightarrow> Block \<Rightarrow> Config \<Rightarrow> error + CrosslinkRecord list" where
  "process_updated_crosslinks cs active block config =
     bnd (foldM (crosslink_step cs config) (Map.empty, crosslink_records cs)
            (pending_attestations active)) (\<lambda>st. Inr (snd st))"

text \<open>The crosslink update, attestation by attestation. What \<open>process_updated_crosslinks\<close>
  computes from one attestation before it touches its loop state is the tally
  \<open>(shard_id, shard_block_hash, total committee balance, balance of the voters)\<close>; the rest
  of the loop body, \<open>tally_step\<close>, adds the voters' balance to the total of the group
  \<open>(shard_id, shard_block_hash)\<close> and tests the two thirds.\<close>

type_synonym tally = "int \<times> bytes \<times> int \<times> int"

definition attestation_tally ::
    "CrystallizedState \<Rightarrow> Config \<Rightarrow> AttestationRecord \<Rightarrow> error + tally" where
  "attestation_tally cs config attestation =
     bnd (get_attestation_indices cs attestation config) (\<lambda>attestation_indices.
     bnd (mapM (\<lambda>index. bnd (py_get (validators cs) index) (\<lambda>v. Inr (balance v)))
            attestation_indices) (\<lambda>committee_balances.
     bnd (comprehension
            (\<lambda>(in_cycle_slot_height, index).
               has_voted (attester_bitfield attestation) in_cycle_slot_height)
            (\<lambda>(in_cycle_slot_height, index).
               bnd (py_get (validators cs) index) (\<lambda>v. Inr (balance v)))
            (enumerate_int attestation_indices)) (\<lambda>voted_balances.
       Inr (shard_id attestation, shard_block_hash attestation,
            sum_list committee_balances, sum_list voted_balances))))"

definition tally_step ::
    "CrystallizedState \<Rightarrow> Config \<Rightarrow> ((int \<times> bytes) \<rightharpoonup> int) \<times> CrosslinkRecord list
      \<Rightarrow> tally \<Rightarrow> error + (((int \<times> bytes) \<rightharpoonup> int) \<times> CrosslinkRecord list)" where
  "tally_step cs config st t =
     (case t of (sid, h, total_committee_balance, voted) \<Rightarrow>
        let new_total = (case fst st (sid, h) of None \<Rightarrow> 0 | Some v \<Rightarrow> v) + voted;
            tab2 = (fst st)((sid, h) \<mapsto> new_total)
        in
          if 3 * new_total \<ge> 2 * total_committee_balance
          then
            bnd (py_get (snd st) sid) (\<lambda>c.
              if current_dynasty cs > dynasty c
              then
                bnd (py_set (snd st) sid
                       \<lparr>dynasty = current_dynasty cs,
                        crosslink_slot = last_state_recalc cs + cycle_length config,
                        crosslink_hash = h\<rparr>) (\<lambda>crosslinks'.
                  Inr (tab2, crosslinks'))
              else Inr (tab2, snd st))
          else Inr (tab2, snd st))"

section \<open>Rewards and penalties\<close>

text \<open>\<open>quadratic_penalty_quotient\<close> is computed in floating point, asserted to be an
  integer and converted: this is the parameter \<open>penalty_quotient\<close>, applied to
  \<open>sqrt_e_drop_time\<close> and \<open>slot_duration\<close>.\<close>

definition get_reward_context :: "External \<Rightarrow> int \<Rightarrow> Config \<Rightarrow> error + (int \<times> int)" where
  "get_reward_context ext td config =
     (if \<not> td > 0 then Inl AssertionError
      else
        let total_deposits_in_ETH = td div WEI_PER_ETH;
            reward_quotient = base_reward_quotient config * int_sqrt total_deposits_in_ETH
        in
          bnd (penalty_quotient ext (sqrt_e_drop_time config) (slot_duration config))
            (\<lambda>quadratic_penalty_quotient.
              Inr (reward_quotient, quadratic_penalty_quotient)))"

text \<open>The body of the loop over the slots of the cycle in \<open>calculate_ffg_rewards\<close>; the
  state of the loop is the list \<open>rewards_and_penalties\<close>. The test \<open>if block:\<close> is on the
  result of the chain lookup: \<open>None\<close> is false, a block is true. A block that is found has
  its hash looked up in the vote cache, twice under the same key, with no test that the
  key is there.\<close>

definition ffg_slot_step ::
    "External \<Rightarrow> CrystallizedState \<Rightarrow> ActiveState \<Rightarrow> Config \<Rightarrow> int \<Rightarrow> int \<Rightarrow> int \<Rightarrow> int list
      \<Rightarrow> int \<Rightarrow> error + int list" where
  "ffg_slot_step ext cs active config time_since_finality reward_quotient
       quadratic_penalty_quotient rewards_and_penalties s =
     (let vs = validators cs;
          active_validator_indices = get_active_validator_indices (current_dynasty cs) vs;
          td = total_deposits cs
      in
        bnd (case get_block_by_slot_number ext (chain active) s of
               Some b \<Rightarrow>
                 bnd (dict_get (block_vote_cache active) (block_hash ext b)) (\<lambda>entry.
                   Inr (total_voter_deposits entry, voter_indices entry))
             | None \<Rightarrow> Inr (0, {})) (\<lambda>(total_participated_deposits, voters).
          let participating_validator_indices =
                filter (\<lambda>index. index \<in> voters) active_validator_indices;
              non_participating_validator_indices =
                filter (\<lambda>index. index \<notin> voters) active_validator_indices
          in
            if time_since_finality \<le> 3 * cycle_length config
            then
              bnd (foldM (\<lambda>r index.
                      add_at r index
                        (bnd (py_get vs index) (\<lambda>v.
                         bnd (py_floordiv (balance v) reward_quotient) (\<lambda>q.
                           py_floordiv (q * (2 * total_participated_deposits - td)) td))))
                    rewards_and_penalties participating_validator_indices) (\<lambda>r1.
                foldM (\<lambda>r index.
                    add_at r index
                      (bnd (py_get vs index) (\<lambda>v.
                       bnd (py_floordiv (balance v) reward_quotient) (\<lambda>q. Inr (- q)))))
                  r1 non_participating_validator_indices)
            else
              foldM (\<lambda>r index.
                  add_at r index
                    (bnd (py_get vs index) (\<lambda>v.
                     bnd (py_floordiv (balance v) reward_quotient) (\<lambda>q1.
                     bnd (py_floordiv (balance v * time_since_finality)
                            quadratic_penalty_quotient) (\<lambda>q2.
                       Inr (- (q1 + q2)))))))
                rewards_and_penalties non_participating_validator_indices))"

definition calculate_ffg_rewards ::
    "External \<Rightarrow> CrystallizedState \<Rightarrow> ActiveState \<Rightarrow> Block \<Rightarrow> Config \<Rightarrow> error + int list" where
  "calculate_ffg_rewards ext cs active block config =
     (let rewards_and_penalties = map (\<lambda>_. 0) (validators cs);
          time_since_finality = slot_number block - last_finalized_slot cs
      in
        bnd (get_reward_context ext (total_deposits cs) config)
          (\<lambda>(reward_quotient, quadratic_penalty_quotient).
            foldM (ffg_slot_step ext cs active config time_since_finality reward_quotient
                     quadratic_penalty_quotient)
              rewards_and_penalties
              (py_range (max (last_state_recalc cs - cycle_length config) 0)
                 (last_state_recalc cs))))"

text \<open>An entry of the dict \<open>committee_crosslinks\<close>; the dict itself is an association
  list in insertion order, the order in which Python iterates over it.\<close>

record CommitteeCrosslink =
  participating_validator_indices :: "int list"
  non_participating_validator_indices :: "int list"
  total_participated_v_deposits :: int
  total_v_deposits :: int

definition collect_committee ::
    "CrystallizedState \<Rightarrow> ActiveState \<Rightarrow> int \<Rightarrow> (int \<times> CommitteeCrosslink) list
      \<Rightarrow> ShardAndCommittee \<Rightarrow> error + (int \<times> CommitteeCrosslink) list" where
  "collect_committee cs active s committee_crosslinks shard_and_committee =
     (let sid = sac_shard_id shard_and_committee;
          cc1 = (if map_of committee_crosslinks sid = None
                 then committee_crosslinks @
                        [(sid, \<lparr>participating_validator_indices = [],
                                non_participating_validator_indices = [],
                                total_participated_v_deposits = 0,
                                total_v_deposits = 0\<rparr>)]
                 else committee_crosslinks);
          atts = filter (\<lambda>a. slot a = s \<and> shard_id a = sid) (pending_attestations active)
      in
        bnd (if atts \<noteq> [] then or_bitfields (map attester_bitfield atts)
             else Inr (get_empty_bitfield (int (length (committee shard_and_committee)))))
          (\<lambda>bitfield.
        bnd (dict_get (map_of cc1) sid) (\<lambda>committee_crosslink.
        bnd (foldM (\<lambda>cc (committee_index, validator_index).
                bnd (py_get (validators cs) validator_index) (\<lambda>validator.
                bnd (has_voted bitfield committee_index) (\<lambda>voted.
                  let cc' =
                        (if voted
                         then cc\<lparr>participating_validator_indices :=
                                   participating_validator_indices cc @ [validator_index],
                                 total_participated_v_deposits :=
                                   total_participated_v_deposits cc + balance validator\<rparr>
                         else cc\<lparr>non_participating_validator_indices :=
                                   non_participating_validator_indices cc @ [validator_index]\<rparr>)
                  in Inr (cc'\<lparr>total_v_deposits := total_v_deposits cc' + balance validator\<rparr>))))
              committee_crosslink (enumerate_int (committee shard_and_committee)))
          (\<lambda>committee_crosslink'.
            Inr (AList.update sid committee_crosslink' cc1)))))"

definition crosslink_shard_step ::
    "CrystallizedState \<Rightarrow> Block \<Rightarrow> int \<Rightarrow> int \<Rightarrow> int list \<Rightarrow> int \<times> CommitteeCrosslink
      \<Rightarrow> error + int list" where
  "crosslink_shard_step cs block reward_quotient quadratic_penalty_quotient
       rewards_and_penalties item =
     (let sid = fst item; committee_crosslink = snd item in
        bnd (py_get (crosslink_records cs) sid) (\<lambda>crosslink.
          if dynasty crosslink = current_dynasty cs then Inr rewards_and_penalties
          else
            let time_since_last_confirmation = slot_number block - crosslink_slot crosslink;
                tpvd = total_participated_v_deposits committee_crosslink;
                tvd = total_v_deposits committee_crosslink
            in
              bnd (foldM (\<lambda>r validator_index.
                      bnd (py_get (validators cs) validator_index) (\<lambda>validator.
                        add_at r validator_index
                          (bnd (py_floordiv (balance validator) reward_quotient) (\<lambda>q.
                             py_floordiv (q * (2 * tpvd - tvd)) tvd))))
                    rewards_and_penalties
                    (participating_validator_indices committee_crosslink)) (\<lambda>r1.
                foldM (\<lambda>r validator_index.
                    bnd (py_get (validators cs) validator_index) (\<lambda>validator.
                      add_at r validator_index
                        (bnd (py_floordiv (balance validator) reward_quotient) (\<lambda>q1.
                         bnd (py_floordiv (balance validator * time_since_last_confirmation)
                                quadratic_penalty_quotient) (\<lambda>q2.
                           Inr (- (q1 + q2)))))))
                  r1 (non_participating_validator_indices committee_crosslink))))"

definition calculate_crosslink_rewards ::
    "External \<Rightarrow> CrystallizedState \<Rightarrow> ActiveState \<Rightarrow> Block \<Rightarrow> Config \<Rightarrow> error + int list" where
  "calculate_crosslink_rewards ext cs active block config =
     (let rewards_and_penalties = map (\<lambda>_. 0) (validators cs) in
        bnd (get_reward_context ext (total_deposits cs) config)
          (\<lambda>(reward_quotient, quadratic_penalty_quotient).
        bnd (foldM (\<lambda>committee_crosslinks s.
                bnd (get_shards_and_committees_for_slot cs s config) (\<lambda>shards_and_committees.
                  foldM (collect_committee cs active s) committee_crosslinks
                    shards_and_committees))
              []
              (py_range (max (last_state_recalc cs - cycle_length config) 0)
                 (last_state_recalc cs))) (\<lambda>committee_crosslinks.
          foldM (crosslink_shard_step cs block reward_quotient quadratic_penalty_quotient)
            rewards_and_penalties committee_crosslinks)))"

text \<open>The body of the loop that applies the rewards: the balance of the validator at
  \<open>index\<close> grows by both rewards and is then lifted to 0 when it is negative.\<close>

definition apply_reward_step ::
    "int list \<Rightarrow> int list \<Rightarrow> ValidatorRecord list \<Rightarrow> int \<Rightarrow> error + ValidatorRecord list" where
  "apply_reward_step ffg_rewards crosslink_rewards updated_validators index =
     bnd (py_get updated_validators index) (\<lambda>v.
     bnd (py_get ffg_rewards index) (\<lambda>f.
     bnd (py_get crosslink_rewards index) (\<lambda>c.
       let v1 = v\<lparr>balance := balance v + (f + c)\<rparr>;
           v2 = (if balance v1 < 0 then v1\<lparr>balance := 0\<rparr> else v1)
       in py_set updated_validators index v2)))"

definition apply_rewards_and_penalties ::
    "External \<Rightarrow> CrystallizedState \<Rightarrow> ActiveState \<Rightarrow> Block \<Rightarrow> Config
      \<Rightarrow> error + ValidatorRecord list" where
  "apply_rewards_and_penalties ext cs active block config =
     bnd (calculate_ffg_rewards ext cs active block config) (\<lambda>ffg_rewards.
     bnd (calculate_crosslink_rewards ext cs active block config) (\<lambda>crosslink_rewards.
       foldM (apply_reward_step ffg_rewards crosslink_rewards)
         (validators cs)
         (get_active_validator_indices (current_dynasty cs) (validators cs))))"

section \<open>Cycle transition\<close>

text \<open>The body of the loop over \<open>range(cycle_length)\<close> in \<open>initialize_new_cycle\<close>; the
  state of the loop is \<open>(last_justified_slot, justified_streak, last_finalized_slot)\<close>.\<close>

definition justify_step ::
    "CrystallizedState \<Rightarrow> ActiveState \<Rightarrow> Config \<Rightarrow> int \<times> int \<times> int \<Rightarrow> int
      \<Rightarrow> error + (int \<times> int \<times> int)" where
  "justify_step cs active config st i =
     (case st of (ljs, streak, lfs) \<Rightarrow>
        let s = i + (last_state_recalc cs - cycle_length config) in
        bnd (py_get (recent_block_hashes active) i) (\<lambda>h.
          let vote_balance =
                (case block_vote_cache active h of
                   Some entry \<Rightarrow> total_voter_deposits entry
                 | None \<Rightarrow> 0);
              ljs1 = (if 3 * vote_balance \<ge> 2 * total_deposits cs then max ljs s else ljs);
              streak1 = (if 3 * vote_balance \<ge> 2 * total_deposits cs then streak + 1 else 0);
              lfs1 = (if streak1 \<ge> cycle_length config + 1
                      then max lfs (s - cycle_length config - 1) else lfs)
          in Inr (ljs1, streak1, lfs1)))"

definition initialize_new_cycle ::
    "External \<Rightarrow> CrystallizedState \<Rightarrow> ActiveState \<Rightarrow> Block \<Rightarrow> Config
      \<Rightarrow> error + (CrystallizedState \<times> ActiveState)" where
  "initialize_new_cycle ext cs active block config =
     bnd (foldM (justify_step cs active config)
            (last_justified_slot cs, justified_streak cs, last_finalized_slot cs)
            (py_range 0 (cycle_length config))) (\<lambda>(ljs, streak, lfs).
     bnd (process_updated_crosslinks cs active block config) (\<lambda>crosslinks.
       let pending = filter (\<lambda>a. slot a \<ge> last_state_recalc cs) (pending_attestations active) in
     bnd (apply_rewards_and_penalties ext cs active block config) (\<lambda>vs.
       let schedule =
             py_slice_from (shard_and_committee_for_slots cs) (cycle_length config) @
             py_slice_from (shard_and_committee_for_slots cs) (cycle_length config)
       in
         Inr (\<lparr>validators = vs,
               last_state_recalc = last_state_recalc cs + cycle_length config,
               shard_and_committee_for_slots = schedule,
               last_justified_slot = ljs,
               justified_streak = streak,
               last_finalized_slot = lfs,
               current_dynasty = current_dynasty cs,
               crosslink_records = crosslinks,
               dynasty_seed = dynasty_seed cs,
               dynasty_start = dynasty_start cs\<rparr>,
              \<lparr>pending_attestations = pending,
               recent_block_hashes = recent_block_hashes active,
               block_vote_cache = block_vote_cache active,
               chain = chain active\<rparr>))))"

definition fill_recent_block_hashes :: "ActiveState \<Rightarrow> Block \<Rightarrow> Block \<Rightarrow> ActiveState" where
  "fill_recent_block_hashes active parent_block block =
     \<lparr>pending_attestations = pending_attestations active,
      recent_block_hashes =
        get_new_recent_block_hashes (recent_block_hashes active) (slot_number parent_block)
          (slot_number block) (parent_hash block),
      block_vote_cache = block_vote_cache active,
      chain = chain active\<rparr>"

section \<open>Dynasty transition\<close>

definition ready_for_dynasty_transition :: "CrystallizedState \<Rightarrow> Block \<Rightarrow> Config \<Rightarrow> bool" where
  "ready_for_dynasty_transition cs block config =
     (let slots_since_last_dynasty_change = slot_number block - dynasty_start cs in
        if slots_since_last_dynasty_change < min_dynasty_length config then False
        else if last_finalized_slot cs \<le> dynasty_start cs then False
        else
          let required_shards =
                set (map sac_shard_id (concat (shard_and_committee_for_slots cs)))
          in list_all (\<lambda>(sid, crosslink).
                 \<not> (sid \<in> required_shards \<and> crosslink_slot crosslink \<le> dynasty_start cs))
               (enumerate_int (crosslink_records cs)))"

text \<open>The slice assignment \<open>xs[c:] = ys\<close> keeps \<open>xs[:c]\<close> and puts \<open>ys\<close> after it.\<close>

definition compute_dynasty_transition ::
    "External \<Rightarrow> CrystallizedState \<Rightarrow> Block \<Rightarrow> Config \<Rightarrow> error + CrystallizedState" where
  "compute_dynasty_transition ext cs block config =
     (let cs1 = cs\<lparr>current_dynasty := current_dynasty cs + 1\<rparr>;
          cs2 = cs1\<lparr>dynasty_start := last_state_recalc cs1\<rparr>
      in
        bnd (py_get (shard_and_committee_for_slots cs2) (- 1)) (\<lambda>last_slot.
        bnd (py_get last_slot (- 1)) (\<lambda>last_sac.
        bnd (py_mod (sac_shard_id last_sac + 1) (shard_count config)) (\<lambda>next_start_shard.
          Inr (cs2\<lparr>shard_and_committee_for_slots :=
                     py_slice_to (shard_and_committee_for_slots cs2) (cycle_length config) @
                     get_new_shuffling ext (parent_hash block) (validators cs2)
                       (current_dynasty cs2) next_start_shard\<rparr>)))))"

section \<open>The driver\<close>

text \<open>The while loop of \<open>compute_cycle_transitions\<close> need not end (with
  \<open>cycle_length = 0\<close> the guard can stay true), so the function is partial: \<open>None\<close> is
  a loop that runs forever, \<open>Some (Inl e)\<close> an exception, \<open>Some (Inr p)\<close> a returned
  pair of states.\<close>

partial_function (option) compute_cycle_transitions ::
    "External \<Rightarrow> CrystallizedState \<Rightarrow> ActiveState \<Rightarrow> Block \<Rightarrow> Config
      \<Rightarrow> (error + (CrystallizedState \<times> ActiveState)) option" where
  "compute_cycle_transitions ext cs active block config =
     (if slot_number block \<ge> last_state_recalc cs + cycle_length config
      then
        (case initialize_new_cycle ext cs active block config of
           Inl e \<Rightarrow> Some (Inl e)
         | Inr (cs1, active1) \<Rightarrow>
             if ready_for_dynasty_transition cs1 block config
             then
               (case compute_dynasty_transition ext cs1 block config of
                  Inl e \<Rightarrow> Some (Inl e)
                | Inr cs2 \<Rightarrow> compute_cycle_transitions ext cs2 active1 block config)
             else compute_cycle_transitions ext cs1 active1 block config)
      else Some (Inr (cs, active)))"

declare compute_cycle_transitions.simps [code]

definition compute_state_transition ::
    "External \<Rightarrow> CrystallizedState \<times> ActiveState \<Rightarrow> Block \<Rightarrow> Block \<Rightarrow> Config
      \<Rightarrow> (error + (CrystallizedState \<times> ActiveState)) option" where
  "compute_state_transition ext parent_state parent_block block config =
     (case parent_state of (cs, active) \<Rightarrow>
        let _ = validate_block_pre_processing_conditions block parent_block cs config;
            active1 = fill_recent_block_hashes active parent_block block
        in
          case process_block ext cs active1 block parent_block config of
            Inl e \<Rightarrow> Some (Inl e)
          | Inr active2 \<Rightarrow> compute_cycle_transitions ext cs active2 block config)"

section \<open>The specification's statements\<close>

text \<open>The pruning of the pending attestations as the specification words it: the
  attestations at or past the new recalculation slot are kept.\<close>

definition spec_pruned_attestations ::
    "CrystallizedState \<Rightarrow> ActiveState \<Rightarrow> Config \<Rightarrow> AttestationRecord list" where
  "spec_pruned_attestations cs active config =
     filter (\<lambda>a. slot a \<ge> last_state_recalc cs + cycle_length config)
       (pending_attestations active)"

text \<open>The justification walk as the specification words it: the counters
  \<open>(last_justified_slot, justified_streak, last_finalized_slot)\<close> after the positions
  \<open>0, ..., n - 1\<close> of the cycle.\<close>

fun spec_cycle_counters ::
    "CrystallizedState \<Rightarrow> ActiveState \<Rightarrow> Config \<Rightarrow> nat \<Rightarrow> int \<times> int \<times> int" where
  "spec_cycle_counters cs active config 0 =
     (last_justified_slot cs, justified_streak cs, last_finalized_slot cs)"
| "spec_cycle_counters cs active config (Suc i) =
     (case spec_cycle_counters cs active config i of (ljs, streak, lfs) \<Rightarrow>
        let s = last_state_recalc cs - cycle_length config + int i;
            h = recent_block_hashes active ! i;
            vote_balance =
              (if h \<in> dom (block_vote_cache active)
               then total_voter_deposits (the (block_vote_cache active h)) else 0)
        in
          if 3 * vote_balance \<ge> 2 * total_deposits cs
          then (max ljs s, streak + 1,
                if streak + 1 \<ge> cycle_length config + 1
                then max lfs (s - cycle_length config - 1) else lfs)
          else (ljs, 0,
                if 0 \<ge> cycle_length config + 1
                then max lfs (s - cycle_length config - 1) else lfs))"

text \<open>The crosslink update in words. The balance of a group is the sum of the voters'
  balances of its attestations; the attestation at position \<open>k\<close> reaches two thirds when
  three times the balance of its group, counted up to and including \<open>k\<close>, is at least
  twice the balance of its committee; the first hit of the crosslink record \<open>j\<close> is the
  first position whose attestation names the record \<open>j\<close> by its shard and reaches two
  thirds. The record \<open>j\<close> of the result is the new record of the first hit when there is
  one and the current dynasty is later than the old record's, and the old record
  otherwise.\<close>

definition spec_group_balance :: "tally list \<Rightarrow> int \<times> bytes \<Rightarrow> int" where
  "spec_group_balance ts key =
     sum_list (map (\<lambda>t. snd (snd (snd t))) (filter (\<lambda>t. (fst t, fst (snd t)) = key) ts))"

definition spec_reaches :: "tally list \<Rightarrow> nat \<Rightarrow> bool" where
  "spec_reaches ts k =
     (3 * spec_group_balance (take (Suc k) ts) (fst (ts ! k), fst (snd (ts ! k)))
        \<ge> 2 * fst (snd (snd (ts ! k))))"

definition spec_first_hit :: "nat \<Rightarrow> tally list \<Rightarrow> nat \<Rightarrow> nat option" where
  "spec_first_hit n ts j =
     find (\<lambda>k. py_index n (fst (ts ! k)) = Inr j \<and> spec_reaches ts k) [0..<length ts]"

definition spec_crosslink :: "CrystallizedState \<Rightarrow> Config \<Rightarrow> tally list \<Rightarrow> nat \<Rightarrow> CrosslinkRecord" where
  "spec_crosslink cs config ts j =
     (case spec_first_hit (length (crosslink_records cs)) ts j of
        None \<Rightarrow> crosslink_records cs ! j
      | Some k \<Rightarrow>
          if current_dynasty cs > dynasty (crosslink_records cs ! j)
          then \<lparr>dynasty = current_dynasty cs,
                crosslink_slot = last_state_recalc cs + cycle_length config,
                crosslink_hash = fst (snd (ts ! k))\<rparr>
          else crosslink_records cs ! j)"

text \<open>What holds of the loop state after the attestations with the tallies \<open>ts\<close>.\<close>

definition crosslink_invariant ::
    "CrystallizedState \<Rightarrow> Config \<Rightarrow> tally list
      \<Rightarrow> ((int \<times> bytes) \<rightharpoonup> int) \<times> CrosslinkRecord list \<Rightarrow> bool" where
  "crosslink_invariant cs config ts st =
     ((\<forall>key. fst st key =
          (if key \<in> (\<lambda>t. (fst t, fst (snd t))) ` set ts
           then Some (spec_group_balance ts key) else None))
      \<and> length (snd st) = length (crosslink_records cs)
      \<and> (\<forall>j<length (crosslink_records cs). snd st ! j = spec_crosslink cs config ts j))"

text \<open>The validation of an attestation as the specification words it, conditions 1 to 7:
  the slot is not after the parent block's and not more than a cycle before it; the
  justified slot is not after the last justified slot; the chain has the block of the
  justified hash, at the justified slot; the bitfield has the length of the committee's
  bitfield; the bits past the committee are zero; and the aggregate signature of the
  voters verifies on the digest of the message.\<close>

definition spec_attestation_valid ::
    "External \<Rightarrow> CrystallizedState \<Rightarrow> ActiveState \<Rightarrow> AttestationRecord \<Rightarrow> Block \<Rightarrow> Block \<Rightarrow> Config
      \<Rightarrow> bool" where
  "spec_attestation_valid ext cs active att block parent_block config =
     (slot att \<le> slot_number parent_block
      \<and> slot att \<ge> max (slot_number parent_block - cycle_length config + 1) 0
      \<and> justified_slot att \<le> last_justified_slot cs
      \<and> (case get_block_by_hash ext (chain active) (justified_block_hash att) of
            None \<Rightarrow> False
          | Some b \<Rightarrow> slot_number b = justified_slot att)
      \<and> (case get_attestation_indices cs att config of
            Inl _ \<Rightarrow> False
          | Inr members \<Rightarrow>
              int (length (attester_bitfield att)) = get_bitfield_length (int (length members))
              \<and> (\<forall>i \<in> {length members ..< 8 * length (attester_bitfield att)}.
                    has_voted (attester_bitfield att) (int i) = Inr False)
              \<and> (case get_signed_parent_hashes ext active block att config of
                    Inl _ \<Rightarrow> False
                  | Inr parent_hashes \<Rightarrow>
                      (case comprehension
                              (\<lambda>(c, i). has_voted (attester_bitfield att) c)
                              (\<lambda>(c, i). bnd (py_get (validators cs) i) (\<lambda>v. Inr (pubkey v)))
                              (enumerate_int members) of
                         Inl _ \<Rightarrow> False
                       | Inr pub_keys \<Rightarrow>
                           (case (to_bytes (slot att) 8, to_bytes (shard_id att) 2,
                                  to_bytes (justified_slot att) 8) of
                              (Inr b1, Inr b2, Inr b3) \<Rightarrow>
                                bls_verify ext
                                  (blake ext (b1 @ concat parent_hashes @ b2 @
                                              shard_block_hash att @ b3))
                                  (bls_aggregate_pubs ext pub_keys) (aggregate_sig att)
                            | _ \<Rightarrow> False)))))"

text \<open>The block-level rule as the specification words it: unless the block is at slot 0,
  its first attestation is the proposer's, for the proposer's shard and the parent
  block's slot, with the proposer's bit set.\<close>

definition spec_proposer_rule :: "Block \<Rightarrow> Block \<Rightarrow> CrystallizedState \<Rightarrow> Config \<Rightarrow> bool" where
  "spec_proposer_rule block parent_block cs config =
     (slot_number block = 0
      \<or> (case get_proposer_position parent_block cs config of
            Inl _ \<Rightarrow> False
          | Inr (proposer_index_in_committee, sid) \<Rightarrow>
              attestations block \<noteq> []
              \<and> shard_id (hd (attestations block)) = sid
              \<and> slot (hd (attestations block)) = slot_number parent_block
              \<and> has_voted (attester_bitfield (hd (attestations block)))
                    proposer_index_in_committee = Inr True))"

section \<open>Example states\<close>

text \<open>A small configuration (cycles of two slots), a state at genesis with one active and
  one inactive validator, and blocks at the slots 0 and 2. They are the concrete inputs
  at which the theorems below are instantiated. The penalty quotient of the examples is
  the exact one; the configuration has \<open>sqrt_e_drop_time / slot_duration = 4 / 2\<close>, where
  floating point is exact and gives \<open>2.0 ** 2 = 4\<close>.\<close>

definition ext0 :: External where
  "ext0 = \<lparr>blake = (\<lambda>_. []),
           bls_verify = (\<lambda>_ _ _. True),
           bls_aggregate_pubs = sum_list,
           get_new_shuffling = (\<lambda>seed vs dyn start.
             [[\<lparr>sac_shard_id = start, committee = [0]\<rparr>], [\<lparr>sac_shard_id = start, committee = [0]\<rparr>]]),
           block_hash = (\<lambda>b. [word_of_int (slot_number b)]),
           get_block_by_hash = (\<lambda>c h. find (\<lambda>b. [word_of_int (slot_number b)] = h) (blocks c)),
           get_block_by_slot_number = (\<lambda>c s. find (\<lambda>b. slot_number b = s) (blocks c)),
           get_signed_parent_hashes = (\<lambda>active b a config. Inr [parent_hash b]),
           penalty_quotient = (\<lambda>a b.
             if b = 0 then Inl ZeroDivisionError
             else if a mod b \<noteq> 0 then Inl AssertionError
             else Inr ((a div b) ^ 2))\<rparr>"

definition config0 :: Config where
  "config0 = \<lparr>cycle_length = 2, min_dynasty_length = 2, shard_count = 2,
              base_reward_quotient = 1, sqrt_e_drop_time = 4, slot_duration = 2\<rparr>"

definition validators0 :: "ValidatorRecord list" where
  "validators0 =
     [\<lparr>pubkey = 1, balance = 4 * 10 ^ 18, start_dynasty = 0, end_dynasty = 5\<rparr>,
      \<lparr>pubkey = 2, balance = 10 ^ 18, start_dynasty = 3, end_dynasty = 5\<rparr>]"

definition cs0 :: CrystallizedState where
  "cs0 = \<lparr>validators = validators0,
          last_state_recalc = 0,
          shard_and_committee_for_slots = replicate 4 [\<lparr>sac_shard_id = 0, committee = [0]\<rparr>],
          last_justified_slot = 0,
          justified_streak = 0,
          last_finalized_slot = 0,
          current_dynasty = 1,
          crosslink_records =
            [\<lparr>dynasty = 0, crosslink_slot = 0, crosslink_hash = []\<rparr>,
             \<lparr>dynasty = 0, crosslink_slot = 0, crosslink_hash = []\<rparr>],
          dynasty_seed = [],
          dynasty_start = 0\<rparr>"

definition att0 :: AttestationRecord where
  "att0 = \<lparr>slot = 0, shard_id = 0, oblique_parent_hashes = [], shard_block_hash = [7],
           attester_bitfield = [128], justified_slot = 0, justified_block_hash = [0],
           aggregate_sig = []\<rparr>"

definition block0 :: Block where
  "block0 = \<lparr>parent_hash = [], slot_number = 0, attestations = [], randao_reveal = [],
             pow_chain_ref = [], active_state_root = [], crystallized_state_root = []\<rparr>"

definition active0 :: ActiveState where
  "active0 = \<lparr>pending_attestations = [att0],
              recent_block_hashes = [[0], [0], [0], [0]],
              block_vote_cache = Map.empty,
              chain = \<lparr>head = Some block0, blocks = [block0]\<rparr>\<rparr>"

definition block2 :: Block where
  "block2 = \<lparr>parent_hash = [0], slot_number = 2, attestations = [att0], randao_reveal = [],
             pow_chain_ref = [], active_state_root = [], crystallized_state_root = []\<rparr>"

text \<open>A state three cycles later: the recalculation slot is 6, the votes for the hash
  \<open>[0]\<close> carry the whole deposit, one attestation of slot 4 is pending, and the chain
  holds the block of slot 0. The block of slot 8, on the parent of slot 7, carries the
  proposer's attestation.\<close>

definition cs6 :: CrystallizedState where
  "cs6 = cs0\<lparr>last_state_recalc := 6, last_justified_slot := 3, justified_streak := 2\<rparr>"

definition att4 :: AttestationRecord where
  "att4 = att0\<lparr>slot := 4\<rparr>"

definition att7 :: AttestationRecord where
  "att7 = att0\<lparr>slot := 7\<rparr>"

definition active6 :: ActiveState where
  "active6 = \<lparr>pending_attestations = [att4],
              recent_block_hashes = [[0], [0], [0], [0]],
              block_vote_cache =
                [[0] \<mapsto> \<lparr>voter_indices = {0}, total_voter_deposits = 4 * 10 ^ 18\<rparr>],
              chain = \<lparr>head = Some block0, blocks = [block0]\<rparr>\<rparr>"

definition active7 :: ActiveState where
  "active7 = active6\<lparr>pending_attestations := [att4, att7]\<rparr>"

definition block7 :: Block where
  "block7 = block0\<lparr>parent_hash := [0], slot_number := 7\<rparr>"

definition block8 :: Block where
  "block8 = block0\<lparr>parent_hash := [0], slot_number := 8, attestations := [att7]\<rparr>"


text \<open>Two variants with the block of slot 4 in the chain: in \<open>active_voted\<close> the vote
  cache has an entry for its hash \<open>[4]\<close>, in \<open>active_missing\<close> it has none.\<close>

definition block4 :: Block where
  "block4 = block0\<lparr>slot_number := 4\<rparr>"

definition active_missing :: ActiveState where
  "active_missing = active6\<lparr>chain := \<lparr>head = Some block4, blocks = [block0, block4]\<rparr>\<rparr>"

definition active_voted :: ActiveState where
  "active_voted =
     active_missing\<lparr>block_vote_cache :=
       [[0] \<mapsto> \<lparr>voter_indices = {0}, total_voter_deposits = 4 * 10 ^ 18\<rparr>,
        [4] \<mapsto> \<lparr>voter_indices = {0}, total_voter_deposits = 4 * 10 ^ 18\<rparr>]\<rparr>"

text \<open>Two pending attestations of slot 4 for the shard 0, each with the vote of the whole
  committee, for the shard block hashes \<open>[7]\<close> and \<open>[9]\<close>.\<close>

definition att9 :: AttestationRecord where
  "att9 = att4\<lparr>shard_block_hash := [9]\<rparr>"

definition active_two :: ActiveState where
  "active_two = active6\<lparr>pending_attestations := [att4, att9]\<rparr>"

text \<open>Blocks of slot 8 that must be rejected: one without attestations, and one whose
  second attestation is for the slot 9, after the parent block's slot 7.\<close>

definition block_empty :: Block where
  "block_empty = block8\<lparr>attestations := []\<rparr>"

definition att_high :: AttestationRecord where
  "att_high = att7\<lparr>slot := 9\<rparr>"

definition block_bad :: Block where
  "block_bad = block8\<lparr>attestations := [att7, att_high]\<rparr>"

text \<open>A configuration with 100000 shards, and the state \<open>cs6\<close> with the shard 70000
  scheduled beside the shard 0 at the slot 7. The block of slot 8 \<open>block_overflow\<close> carries
  the proposer's attestation, an attestation of the committee of the shard 70000, and an
  attestation for the slot 9, after the parent block's slot 7.\<close>

definition config_wide :: Config where
  "config_wide = config0\<lparr>shard_count := 100000\<rparr>"

definition cs_wide :: CrystallizedState where
  "cs_wide =
     cs6\<lparr>shard_and_committee_for_slots :=
           [[\<lparr>sac_shard_id = 0, committee = [0]\<rparr>],
            [\<lparr>sac_shard_id = 0, committee = [0]\<rparr>],
            [\<lparr>sac_shard_id = 0, committee = [0]\<rparr>],
            [\<lparr>sac_shard_id = 0, committee = [0]\<rparr>,
             \<lparr>sac_shard_id = 70000, committee = [0]\<rparr>]]\<rparr>"

definition att_wide :: AttestationRecord where
  "att_wide = att7\<lparr>shard_id := 70000\<rparr>"

definition block_overflow :: Block where
  "block_overflow = block8\<lparr>attestations := [att7, att_wide, att_high]\<rparr>"

section \<open>Basic facts\<close>

lemma bnd_Inl [simp]: "bnd (Inl e) f = Inl e"
  by (simp add: bnd_def)

lemma bnd_Inr [simp]: "bnd (Inr x) f = f x"
  by (simp add: bnd_def)

lemma bnd_eq_Inr: "bnd m f = Inr y \<longleftrightarrow> (\<exists>x. m = Inr x \<and> f x = Inr y)"
  by (cases m) simp_all

text \<open>A property that every pass of a loop keeps holds when the loop has ended.\<close>

lemma foldM_invariant:
  assumes "foldM f s xs = Inr s'" and "P s"
    and "\<And>s x s1. x \<in> set xs \<Longrightarrow> P s \<Longrightarrow> f s x = Inr s1 \<Longrightarrow> P s1"
  shows "P s'"
  using assms
proof (induction xs arbitrary: s)
  case Nil
  then show ?case by simp
next
  case (Cons x xs)
  from Cons.prems(1) obtain s1 where s1: "f s x = Inr s1" and rest: "foldM f s1 xs = Inr s'"
    by (auto simp: bnd_eq_Inr)
  have "P s1" using Cons.prems(2,3) s1 by (meson list.set_intros(1))
  then show ?case using Cons.IH [OF rest] Cons.prems(3) by (meson list.set_intros(2))
qed

lemma foldM_append:
  "foldM f s (xs @ ys) = bnd (foldM f s xs) (\<lambda>s'. foldM f s' ys)"
  by (induction xs arbitrary: s) (auto simp: bnd_def split: sum.splits)

lemma upto_map_int: "[0..int n - 1] = map int [0..<n]"
proof (induction n)
  case 0
  then show ?case by simp
next
  case (Suc n)
  have "[0..int (Suc n) - 1] = [0..int n - 1] @ [int n]"
    using upto_rec2 [of 0 "int n"] by simp
  then show ?case using Suc by simp
qed

lemma py_range_0: "py_range 0 c = map int [0..<nat c]"
proof (cases "0 \<le> c")
  case True
  then show ?thesis using upto_map_int [of "nat c"] by (simp add: py_range_def)
next
  case False
  then show ?thesis by (simp add: py_range_def)
qed

lemma py_get_nat:
  "py_get xs (int i) = Inr x \<Longrightarrow> i < length xs \<and> x = xs ! i"
  by (auto simp: py_get_def py_index_def bnd_eq_Inr Let_def split: if_splits)

lemma Inr_projr: "\<not> isl r \<Longrightarrow> r = Inr (projr r)"
  by (cases r) simp_all

lemma Inr_projr_pair: "\<not> isl r \<Longrightarrow> r = Inr (fst (projr r), snd (projr r))"
  by (cases r) simp_all

lemma py_index_Inr: "py_index n i = Inr j \<Longrightarrow> j < n"
  by (auto simp: py_index_def Let_def split: if_splits)

lemma py_index_nat: "0 \<le> i \<Longrightarrow> i < int n \<Longrightarrow> py_index n i = Inr (nat i)"
  by (simp add: py_index_def)

lemma py_get_in_range: "0 \<le> i \<Longrightarrow> i < int (length xs) \<Longrightarrow> py_get xs i = Inr (xs ! nat i)"
  by (simp add: py_get_def py_index_nat)

lemma py_set_in_range:
  "0 \<le> i \<Longrightarrow> i < int (length xs) \<Longrightarrow> py_set xs i v = Inr (xs[nat i := v])"
  by (simp add: py_set_def py_index_nat)

lemma py_set_length: "py_set xs i v = Inr ys \<Longrightarrow> length ys = length xs"
  by (auto simp: py_set_def bnd_eq_Inr)

lemma add_at_length: "add_at r i d = Inr r' \<Longrightarrow> length r' = length r"
  by (auto simp: add_at_def bnd_eq_Inr dest: py_set_length)

lemma foldM_length:
  assumes "foldM f r xs = Inr r'"
    and "\<And>s x s1. f s x = Inr s1 \<Longrightarrow> length s1 = length s"
  shows "length r' = length r"
  using assms(1)
proof (rule foldM_invariant [where P = "\<lambda>s. length s = length r"])
  show "length r = length r" by simp
next
  fix s x s1
  assume "length s = length r" and "f s x = Inr s1"
  then show "length s1 = length r" using assms(2) by fastforce
qed

lemma foldM_steps:
  "foldM f s xs = Inr s' \<Longrightarrow> x \<in> set xs \<Longrightarrow> \<exists>s1 s2. f s1 x = Inr s2"
proof (induction xs arbitrary: s)
  case Nil
  then show ?case by simp
next
  case (Cons y ys)
  from Cons.prems(1) obtain s1 where s1: "f s y = Inr s1" and rest: "foldM f s1 ys = Inr s'"
    by (auto simp: bnd_eq_Inr)
  show ?case
  proof (cases "x = y")
    case True
    then show ?thesis using s1 by auto
  next
    case False
    then have "x \<in> set ys" using Cons.prems(2) by simp
    then show ?thesis using Cons.IH [OF rest] by simp
  qed
qed

lemma py_range_first: "a < b \<Longrightarrow> py_range a b = a # py_range (a + 1) b"
  using upto_rec1 [of a "b - 1"] by (simp add: py_range_def)

lemma mapM_append:
  "mapM f (xs @ ys) = bnd (mapM f xs) (\<lambda>a. bnd (mapM f ys) (\<lambda>b. Inr (a @ b)))"
  by (induction xs) (auto simp: bnd_def split: sum.splits)

lemma find_snoc:
  "find P (xs @ [x]) = (case find P xs of Some y \<Rightarrow> Some y | None \<Rightarrow> if P x then Some x else None)"
  by (induction xs) auto

lemma py_get_index:
  "py_get xs i = Inr x \<Longrightarrow> \<exists>j. py_index (length xs) i = Inr j \<and> x = xs ! j \<and> j < length xs"
  by (auto simp: py_get_def bnd_eq_Inr dest: py_index_Inr)

lemma comprehension_success:
  "comprehension p g xs = Inr ys \<Longrightarrow> x \<in> set xs
   \<Longrightarrow> \<exists>b. p x = Inr b \<and> (b \<longrightarrow> (\<exists>y. g x = Inr y))"
proof (induction xs arbitrary: ys)
  case Nil
  then show ?case by simp
next
  case (Cons z zs)
  from Cons.prems(1) obtain b where b: "p z = Inr b"
    by (auto simp: bnd_eq_Inr)
  show ?case
  proof (cases b)
    case True
    with Cons.prems(1) b obtain y ys' where
      y: "g z = Inr y" and r: "comprehension p g zs = Inr ys'"
      by (auto simp: bnd_eq_Inr)
    show ?thesis
    proof (cases "x = z")
      case True
      then show ?thesis using b y by auto
    next
      case False
      then show ?thesis using Cons.IH [OF r] Cons.prems(2) by simp
    qed
  next
    case False
    with Cons.prems(1) b have r: "comprehension p g zs = Inr ys" by simp
    show ?thesis
    proof (cases "x = z")
      case True
      then show ?thesis using b False by auto
    next
      case False
      then show ?thesis using Cons.IH [OF r] Cons.prems(2) by simp
    qed
  qed
qed

lemma initialize_new_cycle_recalc:
  "initialize_new_cycle ext cs active block config = Inr (cs1, active1)
   \<Longrightarrow> last_state_recalc cs1 = last_state_recalc cs + cycle_length config"
  by (auto simp: initialize_new_cycle_def bnd_eq_Inr Let_def split: prod.splits)

lemma compute_dynasty_transition_recalc:
  "compute_dynasty_transition ext cs block config = Inr cs2
   \<Longrightarrow> last_state_recalc cs2 = last_state_recalc cs"
  by (auto simp: compute_dynasty_transition_def bnd_eq_Inr Let_def)

section \<open>The cycle loop of the driver\<close>

text \<open>C7. If \<open>block.slot_number < last_state_recalc + cycle_length\<close>, then
  \<open>compute_cycle_transitions\<close> runs no cycle: it returns the crystallized state (and the
  active state) it was given, equal to its input in every field.\<close>

theorem compute_cycle_transitions_no_cycle:
  "slot_number block < last_state_recalc cs + cycle_length config
   \<Longrightarrow> compute_cycle_transitions ext cs active block config = Some (Inr (cs, active))"
  by (subst compute_cycle_transitions.simps) simp

theorem compute_cycle_transitions_no_cycle_witness:
  "slot_number block0 < last_state_recalc cs0 + cycle_length config0
   \<and> compute_cycle_transitions ext0 cs0 active0 block0 config0 = Some (Inr (cs0, active0))"
proof -
  have h: "slot_number block0 < last_state_recalc cs0 + cycle_length config0"
    by (simp add: block0_def cs0_def config0_def)
  show ?thesis
    using h compute_cycle_transitions_no_cycle [OF h, of ext0 active0] by simp
qed

text \<open>C10. For every input with \<open>cycle_length \<ge> 1\<close> the while loop of
  \<open>compute_cycle_transitions\<close> ends (with a pair of states or with an exception): each
  pass replaces the crystallized state by one whose \<open>last_state_recalc\<close> is larger by
  \<open>cycle_length\<close> (\<open>initialize_new_cycle_recalc\<close>, and the dynasty transition leaves it
  alone), so the guard fails after finitely many passes.\<close>

theorem compute_cycle_transitions_terminates:
  "1 \<le> cycle_length config
   \<Longrightarrow> \<exists>r. compute_cycle_transitions ext cs active block config = Some r"
proof (induction "nat (slot_number block - last_state_recalc cs)" arbitrary: cs active
    rule: less_induct)
  case less
  show ?case
  proof (cases "slot_number block \<ge> last_state_recalc cs + cycle_length config")
    case False
    then show ?thesis by (subst compute_cycle_transitions.simps) simp
  next
    case guard: True
    show ?thesis
    proof (cases "initialize_new_cycle ext cs active block config")
      case (Inl e)
      then show ?thesis using guard by (subst compute_cycle_transitions.simps) simp
    next
      case (Inr p)
      obtain cs1 active1 where p: "p = (cs1, active1)" by (cases p)
      have r1: "last_state_recalc cs1 = last_state_recalc cs + cycle_length config"
        using Inr p by (simp add: initialize_new_cycle_recalc)
      have m1: "nat (slot_number block - last_state_recalc cs1)
                  < nat (slot_number block - last_state_recalc cs)"
        using r1 guard less.prems by simp
      have next1: "\<exists>r. compute_cycle_transitions ext cs1 active1 block config = Some r"
        using less.hyps [OF m1 less.prems] .
      show ?thesis
      proof (cases "ready_for_dynasty_transition cs1 block config")
        case False
        then show ?thesis using guard Inr p next1
          by (subst compute_cycle_transitions.simps) simp
      next
        case ready: True
        show ?thesis
        proof (cases "compute_dynasty_transition ext cs1 block config")
          case (Inl e)
          then show ?thesis using guard Inr p ready
            by (subst compute_cycle_transitions.simps) simp
        next
          case Inr2: (Inr cs2)
          have "last_state_recalc cs2 = last_state_recalc cs1"
            using Inr2 by (rule compute_dynasty_transition_recalc)
          then have m2: "nat (slot_number block - last_state_recalc cs2)
                  < nat (slot_number block - last_state_recalc cs)"
            using m1 by simp
          have "\<exists>r. compute_cycle_transitions ext cs2 active1 block config = Some r"
            using less.hyps [OF m2 less.prems] .
          then show ?thesis using guard Inr p ready Inr2
            by (subst compute_cycle_transitions.simps) simp
        qed
      qed
    qed
  qed
qed

theorem compute_cycle_transitions_terminates_witness:
  "1 \<le> cycle_length config0
   \<and> compute_cycle_transitions ext0 cs0 active0 block2 config0
       \<noteq> None"
proof -
  have h: "1 \<le> cycle_length config0"
    by (simp add: config0_def)
  show ?thesis
    using h compute_cycle_transitions_terminates [OF h, of ext0 cs0 active0 block2] by auto
qed

section \<open>The new cycle\<close>

text \<open>C1, as the code has it. Whenever \<open>initialize_new_cycle\<close> returns (it raises on some
  inputs, for instance when the total deposit is not positive), the pending attestations
  of the returned active state are exactly the input's pending attestations with
  \<open>slot \<ge> last_state_recalc\<close>, the recalculation slot of the input (the code's own comment:
  "remove attestations older than last_state_recalc"), and the returned crystallized
  state has \<open>last_state_recalc\<close> advanced by \<open>cycle_length\<close>.\<close>

theorem initialize_new_cycle_pending:
  assumes "initialize_new_cycle ext cs active block config = Inr (cs', active')"
  shows "pending_attestations active'
           = filter (\<lambda>a. slot a \<ge> last_state_recalc cs) (pending_attestations active)
         \<and> last_state_recalc cs' = last_state_recalc cs + cycle_length config"
  using assms
  by (auto simp: initialize_new_cycle_def bnd_eq_Inr Let_def split: prod.splits)

text \<open>The claim as the specification states it (attestations kept from
  \<open>last_state_recalc + cycle_length\<close> on) fails: with the recalculation slot 6 and cycles
  of two slots, the pending attestation of slot 7 is kept, and the specification's pruning
  drops it.\<close>

theorem initialize_new_cycle_pending_counterexample:
  "\<not> isl (initialize_new_cycle ext0 cs6 active7 block8 config0)
   \<and> pending_attestations (snd (projr (initialize_new_cycle ext0 cs6 active7 block8 config0)))
       \<noteq> spec_pruned_attestations cs6 active7 config0"
  by code_simp

theorem initialize_new_cycle_pending_witness:
  "\<not> isl (initialize_new_cycle ext0 cs6 active7 block8 config0)
   \<and> pending_attestations (snd (projr (initialize_new_cycle ext0 cs6 active7 block8 config0)))
       = [att7]
   \<and> last_state_recalc (fst (projr (initialize_new_cycle ext0 cs6 active7 block8 config0))) = 8"
proof -
  have nl: "\<not> isl (initialize_new_cycle ext0 cs6 active7 block8 config0)"
    by code_simp
  have v: "filter (\<lambda>a. slot a \<ge> last_state_recalc cs6) (pending_attestations active7) = [att7]"
    by code_simp
  have w: "last_state_recalc cs6 + cycle_length config0 = 8"
    by code_simp
  show ?thesis
    using nl initialize_new_cycle_pending [OF Inr_projr_pair [OF nl]] v w by simp
qed

text \<open>The walk over the slots of the cycle, as the specification words it
  (\<open>spec_cycle_counters\<close>), against the loop of the code.\<close>

lemma justify_step_spec:
  assumes "justify_step cs active config (spec_cycle_counters cs active config i) (int i) = Inr st"
  shows "st = spec_cycle_counters cs active config (Suc i)"
proof -
  obtain ljs streak lfs where c: "spec_cycle_counters cs active config i = (ljs, streak, lfs)"
    by (cases "spec_cycle_counters cs active config i")
  obtain h where h: "py_get (recent_block_hashes active) (int i) = Inr h"
  proof (cases "py_get (recent_block_hashes active) (int i)")
    case (Inl e)
    then have False using assms by (simp add: justify_step_def c)
    then show ?thesis ..
  next
    case (Inr h)
    then show ?thesis using that by simp
  qed
  have hh: "recent_block_hashes active ! i = h"
    using py_get_nat [OF h] by simp
  define vb where "vb = (case block_vote_cache active h of
                           Some entry \<Rightarrow> total_voter_deposits entry | None \<Rightarrow> 0)"
  have vb: "(if h \<in> dom (block_vote_cache active)
             then total_voter_deposits (the (block_vote_cache active h)) else 0) = vb"
    by (auto simp: vb_def split: option.splits)
  have s: "int i + (last_state_recalc cs - cycle_length config)
           = last_state_recalc cs - cycle_length config + int i"
    by simp
  show ?thesis
  proof (cases "3 * vb \<ge> 2 * total_deposits cs")
    case True
    have "st = (max ljs (last_state_recalc cs - cycle_length config + int i), streak + 1,
                if streak + 1 \<ge> cycle_length config + 1
                then max lfs (last_state_recalc cs - cycle_length config + int i
                              - cycle_length config - 1) else lfs)"
      using assms c h True s by (simp add: justify_step_def Let_def vb_def [symmetric])
    moreover have "spec_cycle_counters cs active config (Suc i)
             = (max ljs (last_state_recalc cs - cycle_length config + int i), streak + 1,
                if streak + 1 \<ge> cycle_length config + 1
                then max lfs (last_state_recalc cs - cycle_length config + int i
                              - cycle_length config - 1) else lfs)"
      using c True by (simp add: Let_def hh vb)
    ultimately show ?thesis by simp
  next
    case False
    have "st = (ljs, 0,
                if 0 \<ge> cycle_length config + 1
                then max lfs (last_state_recalc cs - cycle_length config + int i
                              - cycle_length config - 1) else lfs)"
      using assms c h False s by (simp add: justify_step_def Let_def vb_def [symmetric])
    moreover have "spec_cycle_counters cs active config (Suc i)
             = (ljs, 0,
                if 0 \<ge> cycle_length config + 1
                then max lfs (last_state_recalc cs - cycle_length config + int i
                              - cycle_length config - 1) else lfs)"
      using c False by (simp add: Let_def hh vb)
    ultimately show ?thesis by simp
  qed
qed

lemma justify_loop_spec:
  "foldM (justify_step cs active config) (spec_cycle_counters cs active config 0)
     (map int [0..<n]) = Inr st
   \<Longrightarrow> st = spec_cycle_counters cs active config n"
proof (induction n arbitrary: st)
  case 0
  then show ?case by simp
next
  case (Suc n)
  from Suc.prems obtain st1 where
    a: "foldM (justify_step cs active config) (spec_cycle_counters cs active config 0)
          (map int [0..<n]) = Inr st1"
    and b: "justify_step cs active config st1 (int n) = Inr st"
    by (auto simp: foldM_append bnd_eq_Inr)
  have "st1 = spec_cycle_counters cs active config n" using Suc.IH [OF a] .
  then show ?case using b justify_step_spec by blast
qed

text \<open>C2. When \<open>initialize_new_cycle\<close> returns, the counters of the returned state are
  those of the specification's walk over \<open>i = 0, ..., cycle_length - 1\<close>: with
  \<open>slot = last_state_recalc - cycle_length + i\<close> and \<open>block_hash = recent_block_hashes[i]\<close>,
  the vote balance is the cached \<open>total_voter_deposits\<close> of the hash, or 0 for a hash not
  in the cache; if \<open>3 * vote_balance \<ge> 2 * total_deposits\<close> the last justified slot
  becomes the maximum of itself and \<open>slot\<close> and the streak grows by one, otherwise the
  streak is reset; and a streak of at least \<open>cycle_length + 1\<close> makes the last finalized
  slot the maximum of itself and \<open>slot - cycle_length - 1\<close>.\<close>

theorem initialize_new_cycle_counters:
  assumes "initialize_new_cycle ext cs active block config = Inr (cs', active')"
  shows "(last_justified_slot cs', justified_streak cs', last_finalized_slot cs')
         = spec_cycle_counters cs active config (nat (cycle_length config))"
proof -
  from assms obtain st where
    loop: "foldM (justify_step cs active config)
             (last_justified_slot cs, justified_streak cs, last_finalized_slot cs)
             (py_range 0 (cycle_length config)) = Inr st"
    and res: "(last_justified_slot cs', justified_streak cs', last_finalized_slot cs') = st"
    by (auto simp: initialize_new_cycle_def bnd_eq_Inr Let_def split: prod.splits)
  have "st = spec_cycle_counters cs active config (nat (cycle_length config))"
    using loop justify_loop_spec [of cs active config "nat (cycle_length config)" st]
    by (simp add: py_range_0)
  then show ?thesis using res by simp
qed

theorem initialize_new_cycle_counters_witness:
  "\<not> isl (initialize_new_cycle ext0 cs6 active6 block8 config0)
   \<and> last_justified_slot (fst (projr (initialize_new_cycle ext0 cs6 active6 block8 config0))) = 5
   \<and> justified_streak (fst (projr (initialize_new_cycle ext0 cs6 active6 block8 config0))) = 4
   \<and> last_finalized_slot (fst (projr (initialize_new_cycle ext0 cs6 active6 block8 config0))) = 2"
proof -
  have nl: "\<not> isl (initialize_new_cycle ext0 cs6 active6 block8 config0)"
    by code_simp
  have v: "spec_cycle_counters cs6 active6 config0 (nat (cycle_length config0)) = (5, 4, 2)"
    by code_simp
  show ?thesis
    using nl initialize_new_cycle_counters [OF Inr_projr_pair [OF nl]] v by simp
qed

section \<open>Justification and finality never go back\<close>

lemma justify_step_mono:
  "justify_step cs active config (a, b, c) i = Inr (a', b', c') \<Longrightarrow> a \<le> a' \<and> c \<le> c'"
  by (auto simp: justify_step_def bnd_eq_Inr Let_def split: if_splits)

lemma initialize_new_cycle_mono:
  assumes "initialize_new_cycle ext cs active block config = Inr (cs1, active1)"
  shows "last_finalized_slot cs \<le> last_finalized_slot cs1
         \<and> last_justified_slot cs \<le> last_justified_slot cs1"
proof -
  from assms obtain st where
    loop: "foldM (justify_step cs active config)
             (last_justified_slot cs, justified_streak cs, last_finalized_slot cs)
             (py_range 0 (cycle_length config)) = Inr st"
    and res: "(last_justified_slot cs1, justified_streak cs1, last_finalized_slot cs1) = st"
    by (auto simp: initialize_new_cycle_def bnd_eq_Inr Let_def split: prod.splits)
  have "case st of (a, b, c) \<Rightarrow> last_justified_slot cs \<le> a \<and> last_finalized_slot cs \<le> c"
  proof (rule foldM_invariant [OF loop])
    show "case (last_justified_slot cs, justified_streak cs, last_finalized_slot cs) of
            (a, b, c) \<Rightarrow> last_justified_slot cs \<le> a \<and> last_finalized_slot cs \<le> c"
      by simp
  next
    fix s x s1
    assume "case s of (a, b, c) \<Rightarrow> last_justified_slot cs \<le> a \<and> last_finalized_slot cs \<le> c"
      and "justify_step cs active config s x = Inr s1"
    then show "case s1 of (a, b, c) \<Rightarrow> last_justified_slot cs \<le> a \<and> last_finalized_slot cs \<le> c"
      using justify_step_mono [of cs active config _ _ _ x]
      by (cases s; cases s1) fastforce
  qed
  then show ?thesis using res by auto
qed

lemma compute_dynasty_transition_counters:
  "compute_dynasty_transition ext cs block config = Inr cs2
   \<Longrightarrow> last_finalized_slot cs2 = last_finalized_slot cs
       \<and> last_justified_slot cs2 = last_justified_slot cs"
  by (auto simp: compute_dynasty_transition_def bnd_eq_Inr Let_def)

lemma compute_cycle_transitions_mono:
  assumes "compute_cycle_transitions ext cs active block config = Some r"
  shows "\<forall>cs' active'. r = Inr (cs', active')
         \<longrightarrow> last_finalized_slot cs \<le> last_finalized_slot cs'
           \<and> last_justified_slot cs \<le> last_justified_slot cs'"
proof (rule compute_cycle_transitions.raw_induct
    [where P = "\<lambda>ext cs active block config r. \<forall>cs' active'. r = Inr (cs', active')
         \<longrightarrow> last_finalized_slot cs \<le> last_finalized_slot cs'
           \<and> last_justified_slot cs \<le> last_justified_slot cs'", OF _ assms], goal_cases)
  case (1 cct ext cs active block config r)
  note IH = 1(1) and eq = 1(2)
  show ?case
  proof (cases "last_state_recalc cs + cycle_length config \<le> slot_number block")
    case False
    then have "r = Inr (cs, active)" using eq by simp
    then show ?thesis by simp
  next
    case guard: True
    show ?thesis
    proof (cases "initialize_new_cycle ext cs active block config")
      case (Inl e)
      then have "r = Inl e" using guard eq by simp
      then show ?thesis by simp
    next
      case (Inr p)
      obtain cs1 active1 where p: "p = (cs1, active1)" by (cases p)
      have m1: "last_finalized_slot cs \<le> last_finalized_slot cs1
                \<and> last_justified_slot cs \<le> last_justified_slot cs1"
        using Inr p initialize_new_cycle_mono by blast
      show ?thesis
      proof (cases "ready_for_dynasty_transition cs1 block config")
        case False
        then have "cct ext cs1 active1 block config = Some r"
          using guard Inr p eq by simp
        then have "\<forall>cs' active'. r = Inr (cs', active') \<longrightarrow> last_finalized_slot cs1 \<le> last_finalized_slot cs' \<and> last_justified_slot cs1 \<le> last_justified_slot cs'" by (rule IH)
        then show ?thesis using m1 by force
      next
        case ready: True
        show ?thesis
        proof (cases "compute_dynasty_transition ext cs1 block config")
          case (Inl e)
          then have "r = Inl e" using guard Inr p ready eq by simp
          then show ?thesis by simp
        next
          case Inr2: (Inr cs2)
          have m2: "last_finalized_slot cs2 = last_finalized_slot cs1
                    \<and> last_justified_slot cs2 = last_justified_slot cs1"
            using Inr2 by (rule compute_dynasty_transition_counters)
          have "cct ext cs2 active1 block config = Some r"
            using guard Inr p ready Inr2 eq by simp
          then have "\<forall>cs' active'. r = Inr (cs', active') \<longrightarrow> last_finalized_slot cs2 \<le> last_finalized_slot cs' \<and> last_justified_slot cs2 \<le> last_justified_slot cs'" by (rule IH)
          then show ?thesis using m1 m2 by force
        qed
      qed
    qed
  qed
qed

text \<open>C5. For every run of \<open>compute_state_transition\<close> that returns a successor pair,
  \<open>last_finalized_slot\<close> and \<open>last_justified_slot\<close> of the returned crystallized state are
  at least those of the parent state.\<close>

theorem compute_state_transition_monotone:
  assumes "compute_state_transition ext (cs, active) parent_block block config
             = Some (Inr (cs', active'))"
  shows "last_finalized_slot cs \<le> last_finalized_slot cs'
         \<and> last_justified_slot cs \<le> last_justified_slot cs'"
proof -
  from assms obtain active2 where
    "compute_cycle_transitions ext cs active2 block config = Some (Inr (cs', active'))"
    by (auto simp: compute_state_transition_def Let_def split: sum.splits)
  then show ?thesis using compute_cycle_transitions_mono by blast
qed



theorem compute_state_transition_monotone_witness:
  "compute_state_transition ext0 (cs6, active6) block7 block8 config0 \<noteq> None
   \<and> \<not> isl (the (compute_state_transition ext0 (cs6, active6) block7 block8 config0))
   \<and> last_finalized_slot cs6
       \<le> last_finalized_slot
            (fst (projr (the (compute_state_transition ext0 (cs6, active6) block7 block8 config0))))
   \<and> last_justified_slot cs6
       \<le> last_justified_slot
            (fst (projr (the (compute_state_transition ext0 (cs6, active6) block7 block8 config0))))"
proof -
  have s: "compute_state_transition ext0 (cs6, active6) block7 block8 config0 \<noteq> None"
    by code_simp
  have nl: "\<not> isl (the (compute_state_transition ext0 (cs6, active6) block7 block8 config0))"
    by code_simp
  have "compute_state_transition ext0 (cs6, active6) block7 block8 config0
        = Some (Inr (fst (projr (the (compute_state_transition ext0 (cs6, active6) block7 block8 config0))),
                     snd (projr (the (compute_state_transition ext0 (cs6, active6) block7 block8 config0)))))"
    using s Inr_projr_pair [OF nl] by auto
  from compute_state_transition_monotone [OF this] show ?thesis
    using s nl by simp
qed

section \<open>The length of the committee schedule\<close>

text \<open>C8. \<open>len(shard_and_committee_for_slots) = 2 * cycle_length\<close> is preserved: if it
  holds of the input, it holds of the crystallized state that \<open>initialize_new_cycle\<close>
  returns (the schedule is rebuilt from two copies of its second half), and of the state
  that \<open>compute_dynasty_transition\<close> returns when the shuffling function gives
  \<open>cycle_length\<close> entries, as its contract says.\<close>

theorem schedule_length_preserved:
  assumes "int (length (shard_and_committee_for_slots cs)) = 2 * cycle_length config"
  shows "(\<forall>cs' active'. initialize_new_cycle ext cs active block config = Inr (cs', active')
            \<longrightarrow> int (length (shard_and_committee_for_slots cs')) = 2 * cycle_length config)
       \<and> (\<forall>cs'. (\<forall>seed vs dyn start.
                    int (length (get_new_shuffling ext seed vs dyn start)) = cycle_length config)
            \<longrightarrow> compute_dynasty_transition ext cs block config = Inr cs'
            \<longrightarrow> int (length (shard_and_committee_for_slots cs')) = 2 * cycle_length config)"
proof (intro conjI allI impI)
  fix cs' active'
  assume "initialize_new_cycle ext cs active block config = Inr (cs', active')"
  then have "shard_and_committee_for_slots cs'
     = py_slice_from (shard_and_committee_for_slots cs) (cycle_length config) @
       py_slice_from (shard_and_committee_for_slots cs) (cycle_length config)"
    by (auto simp: initialize_new_cycle_def bnd_eq_Inr Let_def split: prod.splits)
  then show "int (length (shard_and_committee_for_slots cs')) = 2 * cycle_length config"
    using assms by (auto simp: py_slice_from_def)
next
  fix cs'
  assume sh: "\<forall>seed vs dyn start.
           int (length (get_new_shuffling ext seed vs dyn start)) = cycle_length config"
    and "compute_dynasty_transition ext cs block config = Inr cs'"
  then obtain n where "shard_and_committee_for_slots cs'
     = py_slice_to (shard_and_committee_for_slots cs) (cycle_length config) @
       get_new_shuffling ext (parent_hash block) (validators cs) (current_dynasty cs + 1) n"
    by (auto simp: compute_dynasty_transition_def bnd_eq_Inr Let_def)
  then show "int (length (shard_and_committee_for_slots cs')) = 2 * cycle_length config"
    using assms sh by (auto simp: py_slice_to_def)
qed

theorem schedule_length_preserved_witness:
  "int (length (shard_and_committee_for_slots cs6)) = 2 * cycle_length config0
   \<and> \<not> isl (initialize_new_cycle ext0 cs6 active6 block8 config0)
   \<and> int (length (shard_and_committee_for_slots
         (fst (projr (initialize_new_cycle ext0 cs6 active6 block8 config0))))) = 4
   \<and> \<not> isl (compute_dynasty_transition ext0 cs6 block8 config0)
   \<and> int (length (shard_and_committee_for_slots
         (projr (compute_dynasty_transition ext0 cs6 block8 config0)))) = 4"
proof -
  have h: "int (length (shard_and_committee_for_slots cs6)) = 2 * cycle_length config0"
    by code_simp
  have n1: "\<not> isl (initialize_new_cycle ext0 cs6 active6 block8 config0)"
    by code_simp
  have n2: "\<not> isl (compute_dynasty_transition ext0 cs6 block8 config0)"
    by code_simp
  have sh: "\<forall>seed vs dyn start.
           int (length (get_new_shuffling ext0 seed vs dyn start)) = cycle_length config0"
    by (simp add: ext0_def config0_def)
  have c: "2 * cycle_length config0 = 4"
    by (simp add: config0_def)
  note t = schedule_length_preserved [OF h, of ext0 active6 block8]
  have a: "int (length (shard_and_committee_for_slots
         (fst (projr (initialize_new_cycle ext0 cs6 active6 block8 config0))))) = 4"
    using t Inr_projr_pair [OF n1] c by metis
  have b: "int (length (shard_and_committee_for_slots
         (projr (compute_dynasty_transition ext0 cs6 block8 config0)))) = 4"
    using t Inr_projr [OF n2] sh c by metis
  show ?thesis using h n1 n2 a b by simp
qed

section \<open>Applying the rewards\<close>

text \<open>Both reward lists have one entry for each validator.\<close>

lemma ffg_slot_step_length:
  assumes "ffg_slot_step ext cs active config tsf rq qpq r s = Inr r'"
  shows "length r' = length r"
proof -
  have a: "\<And>d r0 xs r1. foldM (\<lambda>r index. add_at r index (d index)) r0 xs = Inr r1
            \<Longrightarrow> length r1 = length r0"
    by (erule foldM_length) (rule add_at_length)
  show ?thesis
    using assms
    by (auto simp: ffg_slot_step_def Let_def bnd_eq_Inr split: if_splits prod.splits
        dest!: a)
qed

lemma calculate_ffg_rewards_length:
  assumes "calculate_ffg_rewards ext cs active block config = Inr r"
  shows "length r = length (validators cs)"
proof -
  from assms obtain rq qpq where
    "foldM (ffg_slot_step ext cs active config
              (slot_number block - last_finalized_slot cs) rq qpq)
       (map (\<lambda>_. 0) (validators cs))
       (py_range (max (last_state_recalc cs - cycle_length config) 0) (last_state_recalc cs))
     = Inr r"
    by (auto simp: calculate_ffg_rewards_def Let_def bnd_eq_Inr)
  then have "length r = length (map (\<lambda>_. 0::int) (validators cs))"
    by (rule foldM_length) (rule ffg_slot_step_length)
  then show ?thesis by simp
qed

lemma crosslink_shard_step_length:
  assumes "crosslink_shard_step cs block rq qpq r item = Inr r'"
  shows "length r' = length r"
proof -
  have a: "\<And>d r0 xs r1.
            foldM (\<lambda>r vi. bnd (py_get (validators cs) vi) (\<lambda>v. add_at r vi (d v))) r0 xs = Inr r1
            \<Longrightarrow> length r1 = length r0"
    by (erule foldM_length) (auto simp: bnd_eq_Inr dest: add_at_length)
  show ?thesis
    using assms
    by (auto simp: crosslink_shard_step_def Let_def bnd_eq_Inr split: if_splits dest!: a)
qed

lemma calculate_crosslink_rewards_length:
  assumes "calculate_crosslink_rewards ext cs active block config = Inr r"
  shows "length r = length (validators cs)"
proof -
  from assms obtain rq qpq ccs where
    "foldM (crosslink_shard_step cs block rq qpq) (map (\<lambda>_. 0) (validators cs)) ccs = Inr r"
    by (auto simp: calculate_crosslink_rewards_def Let_def bnd_eq_Inr)
  then have "length r = length (map (\<lambda>_. 0::int) (validators cs))"
    by (rule foldM_length) (rule crosslink_shard_step_length)
  then show ?thesis by simp
qed


text \<open>The active indices are distinct positions of the validator list, so the loop
  touches each active validator once and no other.\<close>

lemma active_indices_distinct: "distinct (get_active_validator_indices dyn vs)"
proof -
  have "distinct (map fst (enumerate_int vs))"
    by (simp add: enumerate_int_def distinct_map inj_on_def)
  then show ?thesis
    unfolding get_active_validator_indices_def by (rule distinct_map_filter)
qed

lemma active_indices_range:
  "x \<in> set (get_active_validator_indices dyn vs) \<Longrightarrow> 0 \<le> x \<and> x < int (length vs)"
  by (auto simp: get_active_validator_indices_def enumerate_int_def dest!: set_zip_leftD)

lemma apply_reward_step_in_range:
  assumes "0 \<le> x" "x < int (length vs)" "length ffg = length vs" "length cl = length vs"
  shows "apply_reward_step ffg cl vs x
         = Inr (vs[nat x := (vs ! nat x)\<lparr>balance :=
                   max 0 (balance (vs ! nat x) + ffg ! nat x + cl ! nat x)\<rparr>])"
  using assms
  by (simp add: apply_reward_step_def py_get_in_range py_set_in_range Let_def max_def add.assoc)

lemma apply_reward_loop:
  assumes "distinct xs" "\<forall>x\<in>set xs. 0 \<le> x \<and> x < int (length vs)"
    "length ffg = length vs" "length cl = length vs"
  shows "\<exists>vs'. foldM (apply_reward_step ffg cl) vs xs = Inr vs'
           \<and> length vs' = length vs
           \<and> (\<forall>i<length vs.
                 vs' ! i = (if int i \<in> set xs
                            then (vs ! i)\<lparr>balance := max 0 (balance (vs ! i) + ffg ! i + cl ! i)\<rparr>
                            else vs ! i))"
  using assms
proof (induction xs arbitrary: vs)
  case Nil
  then show ?case by simp
next
  case (Cons x xs)
  define vs1 where
    "vs1 = vs[nat x := (vs ! nat x)\<lparr>balance :=
                   max 0 (balance (vs ! nat x) + ffg ! nat x + cl ! nat x)\<rparr>]"
  have x: "0 \<le> x" "x < int (length vs)" "x \<notin> set xs"
    using Cons.prems(1,2) by auto
  have step: "apply_reward_step ffg cl vs x = Inr vs1"
    unfolding vs1_def using x(1,2) Cons.prems(3,4) by (rule apply_reward_step_in_range)
  have len1: "length vs1 = length vs" by (simp add: vs1_def)
  have "\<exists>vs'. foldM (apply_reward_step ffg cl) vs1 xs = Inr vs'
           \<and> length vs' = length vs1
           \<and> (\<forall>i<length vs1.
                 vs' ! i = (if int i \<in> set xs
                            then (vs1 ! i)\<lparr>balance := max 0 (balance (vs1 ! i) + ffg ! i + cl ! i)\<rparr>
                            else vs1 ! i))"
    using Cons.prems len1 by (intro Cons.IH) auto
  then obtain vs' where r: "foldM (apply_reward_step ffg cl) vs1 xs = Inr vs'"
    and l: "length vs' = length vs1"
    and v: "\<forall>i<length vs1.
                 vs' ! i = (if int i \<in> set xs
                            then (vs1 ! i)\<lparr>balance := max 0 (balance (vs1 ! i) + ffg ! i + cl ! i)\<rparr>
                            else vs1 ! i)"
    by blast
  have "foldM (apply_reward_step ffg cl) vs (x # xs) = Inr vs'"
    using step r by simp
  moreover have "length vs' = length vs" using l len1 by simp
  moreover have "\<forall>i<length vs.
                 vs' ! i = (if int i \<in> set (x # xs)
                            then (vs ! i)\<lparr>balance := max 0 (balance (vs ! i) + ffg ! i + cl ! i)\<rparr>
                            else vs ! i)"
  proof (intro allI impI)
    fix i assume i: "i < length vs"
    show "vs' ! i = (if int i \<in> set (x # xs)
                            then (vs ! i)\<lparr>balance := max 0 (balance (vs ! i) + ffg ! i + cl ! i)\<rparr>
                            else vs ! i)"
    proof (cases "i = nat x")
      case True
      then have "int i \<notin> set xs" using x by simp
      then have "vs' ! i = vs1 ! i" using v i len1 by simp
      then show ?thesis using True i x by (simp add: vs1_def)
    next
      case False
      then have ne: "int i \<noteq> x" using x by auto
      have "vs1 ! i = vs ! i" using False by (simp add: vs1_def)
      then show ?thesis using v i len1 ne by simp
    qed
  qed
  ultimately show ?case by blast
qed

text \<open>C4. When both reward computations return, \<open>apply_rewards_and_penalties\<close> returns a
  validator list of the same length in which every validator active in \<open>current_dynasty\<close>
  has the balance \<open>max(0, old balance + ffg reward + crosslink reward)\<close> and is otherwise
  as before, and every inactive validator's record is unchanged; consequently, inactive
  balances being non-negative in the input (the data model's invariant), every balance
  of the output is non-negative.\<close>

theorem apply_rewards_and_penalties_balances:
  assumes "calculate_ffg_rewards ext cs active block config = Inr ffg"
    and "calculate_crosslink_rewards ext cs active block config = Inr cl"
  shows "\<exists>vs'. apply_rewards_and_penalties ext cs active block config = Inr vs'
           \<and> length vs' = length (validators cs)
           \<and> (\<forall>i<length (validators cs).
                 (int i \<in> set (get_active_validator_indices (current_dynasty cs) (validators cs))
                    \<longrightarrow> vs' ! i = (validators cs ! i)\<lparr>balance :=
                           max 0 (balance (validators cs ! i) + ffg ! i + cl ! i)\<rparr>)
               \<and> (int i \<notin> set (get_active_validator_indices (current_dynasty cs) (validators cs))
                    \<longrightarrow> vs' ! i = validators cs ! i))
           \<and> ((\<forall>i<length (validators cs).
                  int i \<notin> set (get_active_validator_indices (current_dynasty cs) (validators cs))
                    \<longrightarrow> 0 \<le> balance (validators cs ! i))
                \<longrightarrow> (\<forall>v\<in>set vs'. 0 \<le> balance v))"
proof -
  let ?vs = "validators cs"
  let ?act = "get_active_validator_indices (current_dynasty cs) ?vs"
  have lf: "length ffg = length ?vs"
    using assms(1) by (rule calculate_ffg_rewards_length)
  have lc: "length cl = length ?vs"
    using assms(2) by (rule calculate_crosslink_rewards_length)
  have "\<forall>x\<in>set ?act. 0 \<le> x \<and> x < int (length ?vs)"
    using active_indices_range by blast
  from apply_reward_loop [OF active_indices_distinct this lf lc]
  obtain vs' where r: "foldM (apply_reward_step ffg cl) ?vs ?act = Inr vs'"
    and l: "length vs' = length ?vs"
    and v: "\<forall>i<length ?vs.
                 vs' ! i = (if int i \<in> set ?act
                            then (?vs ! i)\<lparr>balance := max 0 (balance (?vs ! i) + ffg ! i + cl ! i)\<rparr>
                            else ?vs ! i)"
    by blast
  have a: "apply_rewards_and_penalties ext cs active block config = Inr vs'"
    using assms r by (simp add: apply_rewards_and_penalties_def)
  have n: "(\<forall>i<length ?vs. int i \<notin> set ?act \<longrightarrow> 0 \<le> balance (?vs ! i))
           \<longrightarrow> (\<forall>v\<in>set vs'. 0 \<le> balance v)"
  proof (intro impI ballI)
    fix w
    assume h: "\<forall>i<length ?vs. int i \<notin> set ?act \<longrightarrow> 0 \<le> balance (?vs ! i)"
      and "w \<in> set vs'"
    then obtain i where i: "i < length ?vs" "w = vs' ! i"
      using l by (auto simp: in_set_conv_nth)
    show "0 \<le> balance w"
    proof (cases "int i \<in> set ?act")
      case True
      then show ?thesis using v i by simp
    next
      case False
      then show ?thesis using v i h by simp
    qed
  qed
  show ?thesis
    using a l v n by (intro exI [of _ vs']) simp
qed

theorem apply_rewards_and_penalties_balances_witness:
  "calculate_ffg_rewards ext0 cs6 active6 block8 config0 = Inr [- 20000000000000000000, 0]
   \<and> calculate_crosslink_rewards ext0 cs6 active6 block8 config0 = Inr [- 10000000000000000000, 0]
   \<and> get_active_validator_indices (current_dynasty cs6) (validators cs6) = [0]
   \<and> \<not> isl (apply_rewards_and_penalties ext0 cs6 active6 block8 config0)
   \<and> projr (apply_rewards_and_penalties ext0 cs6 active6 block8 config0) ! 0
       = (validators cs6 ! 0)\<lparr>balance := 0\<rparr>
   \<and> projr (apply_rewards_and_penalties ext0 cs6 active6 block8 config0) ! 1
       = validators cs6 ! 1
   \<and> 0 \<le> balance (projr (apply_rewards_and_penalties ext0 cs6 active6 block8 config0) ! 0)
   \<and> 0 \<le> balance (projr (apply_rewards_and_penalties ext0 cs6 active6 block8 config0) ! 1)"
proof -
  have f: "calculate_ffg_rewards ext0 cs6 active6 block8 config0
           = Inr [- 20000000000000000000, 0]"
    by code_simp
  have c: "calculate_crosslink_rewards ext0 cs6 active6 block8 config0
           = Inr [- 10000000000000000000, 0]"
    by code_simp
  have a: "get_active_validator_indices (current_dynasty cs6) (validators cs6) = [0]"
    by code_simp
  have len: "length (validators cs6) = 2"
    by code_simp
  have b0: "balance (validators cs6 ! 0) = 4000000000000000000"
    by code_simp
  have b1: "0 \<le> balance (validators cs6 ! 1)"
    by code_simp
  from apply_rewards_and_penalties_balances [OF f c]
  obtain vs' where r: "apply_rewards_and_penalties ext0 cs6 active6 block8 config0 = Inr vs'"
    and l: "length vs' = length (validators cs6)"
    and v: "\<forall>i<length (validators cs6).
                 (int i \<in> set (get_active_validator_indices (current_dynasty cs6) (validators cs6))
                    \<longrightarrow> vs' ! i = (validators cs6 ! i)\<lparr>balance :=
                           max 0 (balance (validators cs6 ! i)
                                  + [- 20000000000000000000, 0] ! i
                                  + [- 10000000000000000000, 0] ! i)\<rparr>)
               \<and> (int i \<notin> set (get_active_validator_indices (current_dynasty cs6) (validators cs6))
                    \<longrightarrow> vs' ! i = validators cs6 ! i)"
    by blast
  have v0: "vs' ! 0 = (validators cs6 ! 0)\<lparr>balance := 0\<rparr>"
    using v [rule_format, of 0] len a b0 by simp
  have v1: "vs' ! 1 = validators cs6 ! 1"
    using v [rule_format, of 1] len a by simp
  show ?thesis
    using f c a r v0 v1 b1 by simp
qed

section \<open>The vote cache lookup of the FFG rewards\<close>

text \<open>A pass of the loop over the slots reads the cache entry of the block at the slot
  without testing that the entry is there.\<close>

lemma ffg_slot_step_lookup:
  assumes "ffg_slot_step ext cs active config tsf rq qpq r s = Inr r'"
    and "get_block_by_slot_number ext (chain active) s = Some b"
  shows "block_hash ext b \<in> dom (block_vote_cache active)"
proof (cases "block_vote_cache active (block_hash ext b)")
  case None
  then have "ffg_slot_step ext cs active config tsf rq qpq r s = Inl KeyError"
    using assms(2) by (simp add: ffg_slot_step_def Let_def dict_get_def)
  then show ?thesis using assms(1) by simp
next
  case (Some e)
  then show ?thesis by auto
qed

lemma ffg_slot_step_missing:
  assumes "get_block_by_slot_number ext (chain active) s = Some b"
    and "block_hash ext b \<notin> dom (block_vote_cache active)"
  shows "ffg_slot_step ext cs active config tsf rq qpq r s = Inl KeyError"
proof -
  have "block_vote_cache active (block_hash ext b) = None"
    using assms(2) by auto
  then show ?thesis
    using assms(1) by (simp add: ffg_slot_step_def Let_def dict_get_def)
qed

lemma justify_step_no_KeyError: "justify_step cs active config st i \<noteq> Inl KeyError"
proof (cases "py_get (recent_block_hashes active) i")
  case (Inl e)
  then have "e = IndexError"
    by (auto simp: py_get_def py_index_def bnd_def Let_def split: if_splits sum.splits)
  then show ?thesis using Inl by (cases st) (simp add: justify_step_def Let_def)
next
  case (Inr h)
  then show ?thesis by (cases st) (simp add: justify_step_def Let_def)
qed

text \<open>C9. \<open>calculate_ffg_rewards\<close> reads \<open>block_vote_cache[block.hash]\<close> without a
  presence check for every block the chain has at a slot of
  \<open>[max(last_state_recalc - cycle_length, 0), last_state_recalc)\<close>: it returns only if
  every such block's hash has a cache entry; when the block at the first slot of the
  range has none (and the reward context was computed), the lookup fails with KeyError;
  and the loop body of \<open>initialize_new_cycle\<close>, whose lookup is guarded and defaults to 0,
  never fails so.\<close>

theorem calculate_ffg_rewards_unguarded_lookup:
  "(\<forall>r. calculate_ffg_rewards ext cs active block config = Inr r
      \<longrightarrow> (\<forall>s\<in>set (py_range (max (last_state_recalc cs - cycle_length config) 0)
                       (last_state_recalc cs)).
             \<forall>b. get_block_by_slot_number ext (chain active) s = Some b
               \<longrightarrow> block_hash ext b \<in> dom (block_vote_cache active)))
   \<and> (\<forall>rq qpq b.
        get_reward_context ext (total_deposits cs) config = Inr (rq, qpq)
        \<longrightarrow> max (last_state_recalc cs - cycle_length config) 0 < last_state_recalc cs
        \<longrightarrow> get_block_by_slot_number ext (chain active)
              (max (last_state_recalc cs - cycle_length config) 0) = Some b
        \<longrightarrow> block_hash ext b \<notin> dom (block_vote_cache active)
        \<longrightarrow> calculate_ffg_rewards ext cs active block config = Inl KeyError)
   \<and> (\<forall>st i. justify_step cs active config st i \<noteq> Inl KeyError)"
proof (intro conjI allI impI ballI)
  fix r s b
  assume ret: "calculate_ffg_rewards ext cs active block config = Inr r"
    and s: "s \<in> set (py_range (max (last_state_recalc cs - cycle_length config) 0)
                       (last_state_recalc cs))"
    and b: "get_block_by_slot_number ext (chain active) s = Some b"
  from ret obtain rq qpq where
    "foldM (ffg_slot_step ext cs active config
              (slot_number block - last_finalized_slot cs) rq qpq)
       (map (\<lambda>_. 0) (validators cs))
       (py_range (max (last_state_recalc cs - cycle_length config) 0) (last_state_recalc cs))
     = Inr r"
    by (auto simp: calculate_ffg_rewards_def Let_def bnd_eq_Inr)
  from foldM_steps [OF this s] obtain r1 r2 where
    "ffg_slot_step ext cs active config (slot_number block - last_finalized_slot cs) rq qpq r1 s
     = Inr r2"
    by blast
  then show "block_hash ext b \<in> dom (block_vote_cache active)"
    using b by (rule ffg_slot_step_lookup)
next
  fix rq qpq b
  assume ctx: "get_reward_context ext (total_deposits cs) config = Inr (rq, qpq)"
    and lt: "max (last_state_recalc cs - cycle_length config) 0 < last_state_recalc cs"
    and b: "get_block_by_slot_number ext (chain active)
              (max (last_state_recalc cs - cycle_length config) 0) = Some b"
    and m: "block_hash ext b \<notin> dom (block_vote_cache active)"
  show "calculate_ffg_rewards ext cs active block config = Inl KeyError"
    using ctx ffg_slot_step_missing [OF b m]
    by (simp add: calculate_ffg_rewards_def Let_def py_range_first [OF lt])
next
  fix st i
  show "justify_step cs active config st i \<noteq> Inl KeyError"
    by (rule justify_step_no_KeyError)
qed

theorem calculate_ffg_rewards_unguarded_lookup_witness:
  "calculate_ffg_rewards ext0 cs6 active_voted block8 config0 = Inr [- 10000000000000000000, 0]
   \<and> get_block_by_slot_number ext0 (chain active_voted) 4 = Some block4
   \<and> block_hash ext0 block4 \<in> dom (block_vote_cache active_voted)
   \<and> get_block_by_slot_number ext0 (chain active_missing) 4 = Some block4
   \<and> block_hash ext0 block4 \<notin> dom (block_vote_cache active_missing)
   \<and> calculate_ffg_rewards ext0 cs6 active_missing block8 config0 = Inl KeyError
   \<and> justify_step cs6 active_missing config0 (3, 2, 0) 0 = Inr (4, 3, 1)"
proof -
  have r: "calculate_ffg_rewards ext0 cs6 active_voted block8 config0
           = Inr [- 10000000000000000000, 0]"
    by code_simp
  have s: "4 \<in> set (py_range (max (last_state_recalc cs6 - cycle_length config0) 0)
                       (last_state_recalc cs6))"
    by code_simp
  have b: "get_block_by_slot_number ext0 (chain active_voted) 4 = Some block4"
    by code_simp
  have b': "get_block_by_slot_number ext0 (chain active_missing) 4 = Some block4"
    by code_simp
  have first: "max (last_state_recalc cs6 - cycle_length config0) 0 = 4"
    by code_simp
  have lt: "max (last_state_recalc cs6 - cycle_length config0) 0 < last_state_recalc cs6"
    by code_simp
  have ctx: "get_reward_context ext0 (total_deposits cs6) config0 = Inr (2, 4)"
    by code_simp
  have m: "block_hash ext0 block4 \<notin> dom (block_vote_cache active_missing)"
    by (simp add: active_missing_def active6_def ext0_def block4_def block0_def)
  have j: "justify_step cs6 active_missing config0 (3, 2, 0) 0 = Inr (4, 3, 1)"
    by code_simp
  note t = calculate_ffg_rewards_unguarded_lookup [of ext0 cs6 _ block8 config0]
  have d: "block_hash ext0 block4 \<in> dom (block_vote_cache active_voted)"
    using t [of active_voted] r s b by blast
  have k: "calculate_ffg_rewards ext0 cs6 active_missing block8 config0 = Inl KeyError"
    using t [of active_missing] ctx lt b' m first by metis
  show ?thesis
    using r b d b' m k j by simp
qed

section \<open>The crosslink update\<close>

text \<open>The loop body of \<open>process_updated_crosslinks\<close> is the tally of the attestation
  followed by \<open>tally_step\<close>.\<close>

lemma crosslink_step_tally:
  "crosslink_step cs config st a = bnd (attestation_tally cs config a) (tally_step cs config st)"
proof -
  have k: "\<And>(m :: (int \<times> bytes) \<rightharpoonup> int) key.
        dict_get (if m key = None then m(key \<mapsto> 0) else m) key
        = Inr (case m key of None \<Rightarrow> 0 | Some v \<Rightarrow> v)"
    by (auto simp: dict_get_def split: option.splits)
  have u: "\<And>(m :: (int \<times> bytes) \<rightharpoonup> int) key v.
        (if m key = None then m(key \<mapsto> 0) else m)(key \<mapsto> v) = m(key \<mapsto> v)"
    by auto
  show ?thesis
    unfolding crosslink_step_def attestation_tally_def tally_step_def Let_def k u
    by (auto simp: bnd_def split: sum.splits)
qed

text \<open>How the specification's balances, hits and records change when one more
  attestation is counted.\<close>

lemma spec_group_balance_append:
  "spec_group_balance (ts @ [t]) key
   = spec_group_balance ts key + (if (fst t, fst (snd t)) = key then snd (snd (snd t)) else 0)"
  by (simp add: spec_group_balance_def)

lemma spec_group_balance_absent:
  assumes "key \<notin> (\<lambda>t. (fst t, fst (snd t))) ` set ts"
  shows "spec_group_balance ts key = 0"
proof -
  have "filter (\<lambda>t. (fst t, fst (snd t)) = key) ts = []"
    using assms by (auto simp: filter_empty_conv)
  then show ?thesis by (simp add: spec_group_balance_def)
qed

lemma spec_reaches_append_old:
  "k < length ts \<Longrightarrow> spec_reaches (ts @ [t]) k = spec_reaches ts k"
  by (simp add: spec_reaches_def nth_append)

lemma spec_reaches_append_new:
  "spec_reaches (ts @ [t]) (length ts)
   = (3 * (spec_group_balance ts (fst t, fst (snd t)) + snd (snd (snd t)))
        \<ge> 2 * fst (snd (snd t)))"
  by (simp add: spec_reaches_def spec_group_balance_append)

lemma spec_first_hit_less: "spec_first_hit n ts j = Some k \<Longrightarrow> k < length ts"
  by (auto simp: spec_first_hit_def find_Some_iff)

lemma spec_first_hit_append:
  "spec_first_hit n (ts @ [t]) j
   = (case spec_first_hit n ts j of
        Some k \<Rightarrow> Some k
      | None \<Rightarrow> if py_index n (fst t) = Inr j \<and> spec_reaches (ts @ [t]) (length ts)
                then Some (length ts) else None)"
proof -
  have "find (\<lambda>k. py_index n (fst ((ts @ [t]) ! k)) = Inr j \<and> spec_reaches (ts @ [t]) k)
          [0..<length ts]
        = find (\<lambda>k. py_index n (fst (ts ! k)) = Inr j \<and> spec_reaches ts k) [0..<length ts]"
    by (rule find_cong) (auto simp: nth_append spec_reaches_append_old)
  then show ?thesis
    by (auto simp: spec_first_hit_def find_snoc split: option.splits)
qed

lemma spec_crosslink_append:
  "spec_crosslink cs config (ts @ [t]) j
   = (case spec_first_hit (length (crosslink_records cs)) ts j of
        Some k \<Rightarrow> spec_crosslink cs config ts j
      | None \<Rightarrow>
          if py_index (length (crosslink_records cs)) (fst t) = Inr j
             \<and> spec_reaches (ts @ [t]) (length ts)
             \<and> current_dynasty cs > dynasty (crosslink_records cs ! j)
          then \<lparr>dynasty = current_dynasty cs,
                crosslink_slot = last_state_recalc cs + cycle_length config,
                crosslink_hash = fst (snd t)\<rparr>
          else crosslink_records cs ! j)"
proof (cases "spec_first_hit (length (crosslink_records cs)) ts j")
  case None
  then show ?thesis
    by (simp add: spec_crosslink_def spec_first_hit_append)
next
  case (Some k)
  then have "k < length ts" by (rule spec_first_hit_less)
  then show ?thesis
    using Some by (simp add: spec_crosslink_def spec_first_hit_append nth_append)
qed


text \<open>One pass of the loop keeps the invariant: the totals of the groups are the
  specification's, and every record is the one of its first hit. A later hit of a
  record that was already replaced finds the current dynasty in it and leaves it.\<close>

lemma crosslink_invariant_step:
  assumes inv: "crosslink_invariant cs config ts st"
    and step: "tally_step cs config st t = Inr st'"
  shows "crosslink_invariant cs config (ts @ [t]) st'"
proof -
  obtain tab cls where st: "st = (tab, cls)" by (cases st)
  obtain sid h tcb vb where t: "t = (sid, h, tcb, vb)" by (cases t)
  let ?old = "crosslink_records cs"
  let ?n = "length ?old"
  let ?new = "\<lparr>dynasty = current_dynasty cs,
               crosslink_slot = last_state_recalc cs + cycle_length config,
               crosslink_hash = h\<rparr>"
  have tabs: "\<forall>key. tab key =
          (if key \<in> (\<lambda>t. (fst t, fst (snd t))) ` set ts
           then Some (spec_group_balance ts key) else None)"
    and len: "length cls = ?n"
    and recs: "\<forall>j<?n. cls ! j = spec_crosslink cs config ts j"
    using inv by (simp_all add: crosslink_invariant_def st)
  define new_total where "new_total = spec_group_balance ts (sid, h) + vb"
  have old: "(case tab (sid, h) of None \<Rightarrow> 0 | Some v \<Rightarrow> v) = spec_group_balance ts (sid, h)"
  proof (cases "(sid, h) \<in> (\<lambda>t. (fst t, fst (snd t))) ` set ts")
    case True
    then show ?thesis using tabs by simp
  next
    case False
    then show ?thesis using tabs spec_group_balance_absent [OF False] by simp
  qed
  have hit: "spec_reaches (ts @ [t]) (length ts) = (3 * new_total \<ge> 2 * tcb)"
    by (simp add: spec_reaches_append_new t new_total_def)
  have tab': "fst st' = tab((sid, h) \<mapsto> new_total)"
    using step
    by (auto simp: tally_step_def st t old new_total_def Let_def bnd_eq_Inr split: if_splits)
  have A: "\<forall>key. fst st' key =
          (if key \<in> (\<lambda>t. (fst t, fst (snd t))) ` set (ts @ [t])
           then Some (spec_group_balance (ts @ [t]) key) else None)"
  proof
    fix key
    show "fst st' key =
          (if key \<in> (\<lambda>t. (fst t, fst (snd t))) ` set (ts @ [t])
           then Some (spec_group_balance (ts @ [t]) key) else None)"
    proof (cases "key = (sid, h)")
      case True
      then show ?thesis
        by (simp add: tab' t spec_group_balance_append new_total_def)
    next
      case False
      then show ?thesis
        using tabs [THEN spec, of key] by (simp add: tab' t spec_group_balance_append)
    qed
  qed
  have B: "length (snd st') = ?n \<and> (\<forall>j<?n. snd st' ! j = spec_crosslink cs config (ts @ [t]) j)"
  proof (cases "3 * new_total \<ge> 2 * tcb")
    case False
    then have same: "snd st' = cls"
      using step by (auto simp: tally_step_def st t old new_total_def Let_def)
    have "\<forall>j<?n. cls ! j = spec_crosslink cs config (ts @ [t]) j"
    proof (intro allI impI)
      fix j assume j: "j < ?n"
      show "cls ! j = spec_crosslink cs config (ts @ [t]) j"
      proof (cases "spec_first_hit ?n ts j")
        case None
        then show ?thesis
          using recs j False hit
          by (simp add: spec_crosslink_append) (simp add: spec_crosslink_def)
      next
        case (Some k)
        then show ?thesis using recs j by (simp add: spec_crosslink_append)
      qed
    qed
    then show ?thesis using same len by simp
  next
    case True
    from step True obtain c where c: "py_get cls sid = Inr c"
      by (auto simp: tally_step_def st t old new_total_def Let_def bnd_eq_Inr)
    then obtain j0 where j0: "py_index ?n sid = Inr j0" "c = cls ! j0" "j0 < ?n"
      using py_get_index [OF c] len by auto
    have other: "\<And>j. j < ?n \<Longrightarrow> j \<noteq> j0
                  \<Longrightarrow> spec_crosslink cs config (ts @ [t]) j = cls ! j"
    proof -
      fix j assume j: "j < ?n" "j \<noteq> j0"
      show "spec_crosslink cs config (ts @ [t]) j = cls ! j"
      proof (cases "spec_first_hit ?n ts j")
        case None
        then show ?thesis
          using recs j j0
          by (simp add: spec_crosslink_append t) (simp add: spec_crosslink_def)
      next
        case (Some k)
        then show ?thesis using recs j by (simp add: spec_crosslink_append)
      qed
    qed
    show ?thesis
    proof (cases "current_dynasty cs > dynasty c")
      case newer: True
      have none: "spec_first_hit ?n ts j0 = None"
      proof (cases "spec_first_hit ?n ts j0")
        case None
        then show ?thesis .
      next
        case (Some k)
        then have "cls ! j0 = (if current_dynasty cs > dynasty (?old ! j0)
                               then \<lparr>dynasty = current_dynasty cs,
                                     crosslink_slot = last_state_recalc cs + cycle_length config,
                                     crosslink_hash = fst (snd (ts ! k))\<rparr>
                               else ?old ! j0)"
          using recs j0(3) by (simp add: spec_crosslink_def)
        then have False using newer j0(2) by (auto split: if_splits)
        then show ?thesis ..
      qed
      then have c_old: "c = ?old ! j0"
        using recs j0 by (simp add: spec_crosslink_def)
      have upd: "snd st' = cls[j0 := ?new]"
        using step True c newer j0(1) len
        by (auto simp: tally_step_def st t old new_total_def Let_def py_set_def)
      have at: "spec_crosslink cs config (ts @ [t]) j0 = ?new"
        using none True hit newer c_old j0(1)
        by (simp add: spec_crosslink_append t)
      have "\<forall>j<?n. snd st' ! j = spec_crosslink cs config (ts @ [t]) j"
      proof (intro allI impI)
        fix j assume j: "j < ?n"
        show "snd st' ! j = spec_crosslink cs config (ts @ [t]) j"
        proof (cases "j = j0")
          case True
          then show ?thesis using upd at j len by simp
        next
          case False
          then show ?thesis using upd other [OF j False] by simp
        qed
      qed
      then show ?thesis using upd len by simp
    next
      case older: False
      have same: "snd st' = cls"
        using step True c older
        by (auto simp: tally_step_def st t old new_total_def Let_def)
      have at: "spec_crosslink cs config (ts @ [t]) j0 = cls ! j0"
      proof (cases "spec_first_hit ?n ts j0")
        case None
        then have "cls ! j0 = ?old ! j0"
          using recs j0(3) by (simp add: spec_crosslink_def)
        then show ?thesis
          using None older j0 by (simp add: spec_crosslink_append)
      next
        case (Some k)
        then show ?thesis using recs j0(3) by (simp add: spec_crosslink_append)
      qed
      have "\<forall>j<?n. cls ! j = spec_crosslink cs config (ts @ [t]) j"
      proof (intro allI impI)
        fix j assume j: "j < ?n"
        show "cls ! j = spec_crosslink cs config (ts @ [t]) j"
          using at other [OF j] by (cases "j = j0") simp_all
      qed
      then show ?thesis using same len by simp
    qed
  qed
  show ?thesis
    using A B by (simp add: crosslink_invariant_def)
qed

lemma crosslink_loop_invariant:
  "foldM (crosslink_step cs config) (Map.empty, crosslink_records cs) atts = Inr st
   \<Longrightarrow> \<exists>ts. mapM (attestation_tally cs config) atts = Inr ts
           \<and> crosslink_invariant cs config ts st"
proof (induction atts arbitrary: st rule: rev_induct)
  case Nil
  then have "st = (Map.empty, crosslink_records cs)" by simp
  then have "crosslink_invariant cs config [] st"
    by (simp add: crosslink_invariant_def spec_crosslink_def spec_first_hit_def)
  then show ?case by simp
next
  case (snoc a atts)
  from snoc.prems obtain st1 where
    st1: "foldM (crosslink_step cs config) (Map.empty, crosslink_records cs) atts = Inr st1"
    and last: "crosslink_step cs config st1 a = Inr st"
    by (auto simp: foldM_append bnd_eq_Inr)
  from snoc.IH [OF st1] obtain ts where
    ts: "mapM (attestation_tally cs config) atts = Inr ts"
    and inv: "crosslink_invariant cs config ts st1"
    by blast
  from last obtain t where
    t: "attestation_tally cs config a = Inr t" and step: "tally_step cs config st1 t = Inr st"
    by (auto simp: crosslink_step_tally bnd_eq_Inr)
  have "mapM (attestation_tally cs config) (atts @ [a]) = Inr (ts @ [t])"
    using ts t by (simp add: mapM_append)
  moreover have "crosslink_invariant cs config (ts @ [t]) st"
    using inv step by (rule crosslink_invariant_step)
  ultimately show ?case by blast
qed

text \<open>C3, as the code has it. When \<open>process_updated_crosslinks\<close> returns, the tallies of
  all pending attestations were computed, the list of crosslink records has kept its
  length, and the record \<open>j\<close> is \<open>spec_crosslink\<close>: if \<open>current_dynasty\<close> is later than the
  dynasty of the old record and some pending attestation names the record by its shard
  and brings the running balance of its group \<open>(shard_id, shard_block_hash)\<close> to two
  thirds of its committee's balance, the record is
  \<open>{dynasty: current_dynasty, slot: last_state_recalc + cycle_length, hash: h}\<close> with \<open>h\<close> the
  shard block hash of the first such attestation; otherwise the record is unchanged.\<close>

theorem process_updated_crosslinks_first_hit:
  assumes "process_updated_crosslinks cs active block config = Inr crosslinks"
  shows "\<exists>ts. mapM (attestation_tally cs config) (pending_attestations active) = Inr ts
           \<and> length crosslinks = length (crosslink_records cs)
           \<and> (\<forall>j<length (crosslink_records cs). crosslinks ! j = spec_crosslink cs config ts j)"
proof -
  from assms obtain st where
    "foldM (crosslink_step cs config) (Map.empty, crosslink_records cs)
       (pending_attestations active) = Inr st"
    and "crosslinks = snd st"
    by (auto simp: process_updated_crosslinks_def bnd_eq_Inr)
  then show ?thesis
    using crosslink_loop_invariant [of cs config "pending_attestations active" st]
    by (auto simp: crosslink_invariant_def)
qed


text \<open>The claim as the specification states it, for every group that has two thirds,
  fails when two groups of one shard have them: the pending attestations for the hashes
  \<open>[7]\<close> and \<open>[9]\<close> of the shard 0 both carry the whole committee balance and the current
  dynasty 1 is later than the record's dynasty 0, yet the returned record has the hash
  \<open>[7]\<close> of the first one and not \<open>[9]\<close>.\<close>

theorem process_updated_crosslinks_counterexample:
  "process_updated_crosslinks cs6 active_two block8 config0
     = Inr [\<lparr>dynasty = 1, crosslink_slot = 8, crosslink_hash = [7]\<rparr>,
            \<lparr>dynasty = 0, crosslink_slot = 0, crosslink_hash = []\<rparr>]
   \<and> pending_attestations active_two = [att4, att9]
   \<and> shard_id att9 = 0
   \<and> shard_block_hash att9 = [9]
   \<and> shard_block_hash att4 \<noteq> shard_block_hash att9
   \<and> attestation_tally cs6 config0 att9
       = Inr (0, [9], 4000000000000000000, 4000000000000000000)
   \<and> 3 * 4000000000000000000 \<ge> 2 * (4000000000000000000 :: int)
   \<and> current_dynasty cs6 > dynasty (crosslink_records cs6 ! 0)
   \<and> crosslink_hash (projr (process_updated_crosslinks cs6 active_two block8 config0) ! 0)
       \<noteq> shard_block_hash att9"
  by code_simp


theorem process_updated_crosslinks_first_hit_witness:
  "\<not> isl (process_updated_crosslinks cs6 active_two block8 config0)
   \<and> mapM (attestation_tally cs6 config0) (pending_attestations active_two)
       = Inr [(0, [7], 4000000000000000000, 4000000000000000000),
              (0, [9], 4000000000000000000, 4000000000000000000)]
   \<and> spec_first_hit 2 [(0, [7], 4000000000000000000, 4000000000000000000),
                        (0, [9], 4000000000000000000, 4000000000000000000)] 0 = Some 0
   \<and> spec_first_hit 2 [(0, [7], 4000000000000000000, 4000000000000000000),
                        (0, [9], 4000000000000000000, 4000000000000000000)] 1 = None
   \<and> projr (process_updated_crosslinks cs6 active_two block8 config0) ! 0
       = \<lparr>dynasty = 1, crosslink_slot = 8, crosslink_hash = [7]\<rparr>
   \<and> projr (process_updated_crosslinks cs6 active_two block8 config0) ! 1
       = crosslink_records cs6 ! 1"
proof -
  let ?ts = "[(0, [7], 4000000000000000000, 4000000000000000000),
              (0, [9], 4000000000000000000, 4000000000000000000)] :: tally list"
  have nl: "\<not> isl (process_updated_crosslinks cs6 active_two block8 config0)"
    by code_simp
  have m: "mapM (attestation_tally cs6 config0) (pending_attestations active_two) = Inr ?ts"
    by code_simp
  have h0: "spec_first_hit 2 ?ts 0 = Some 0"
    by code_simp
  have h1: "spec_first_hit 2 ?ts 1 = None"
    by code_simp
  have len: "length (crosslink_records cs6) = 2"
    by code_simp
  have s0: "spec_crosslink cs6 config0 ?ts 0
            = \<lparr>dynasty = 1, crosslink_slot = 8, crosslink_hash = [7]\<rparr>"
    by code_simp
  have s1: "spec_crosslink cs6 config0 ?ts 1 = crosslink_records cs6 ! 1"
    by code_simp
  from process_updated_crosslinks_first_hit [OF Inr_projr [OF nl]]
  obtain ts where
    ts: "mapM (attestation_tally cs6 config0) (pending_attestations active_two) = Inr ts"
    and recs: "\<forall>j<length (crosslink_records cs6).
                 projr (process_updated_crosslinks cs6 active_two block8 config0) ! j
                 = spec_crosslink cs6 config0 ts j"
    by blast
  have e: "ts = ?ts" using ts m by simp
  have r0: "projr (process_updated_crosslinks cs6 active_two block8 config0) ! 0
            = \<lparr>dynasty = 1, crosslink_slot = 8, crosslink_hash = [7]\<rparr>"
    using recs [rule_format, of 0] len s0 e by simp
  have r1: "projr (process_updated_crosslinks cs6 active_two block8 config0) ! 1
            = crosslink_records cs6 ! 1"
    using recs [rule_format, of 1] len s1 e by simp
  show ?thesis
    using nl m h0 h1 r0 r1 by simp
qed

section \<open>Rejected blocks\<close>

text \<open>What the two validators accept satisfies the specification's rules.\<close>

lemma validate_parent_block_proposer_sound:
  assumes "validate_parent_block_proposer block parent_block cs config = Inr ()"
  shows "spec_proposer_rule block parent_block cs config"
proof (cases "slot_number block = 0")
  case True
  then show ?thesis by (simp add: spec_proposer_rule_def)
next
  case False
  from assms False obtain p sid where
    pp: "get_proposer_position parent_block cs config = Inr (p, sid)"
    by (auto simp: validate_parent_block_proposer_def bnd_eq_Inr)
  have ne: "attestations block \<noteq> []"
    using assms False pp by (auto simp: validate_parent_block_proposer_def)
  then have hd: "attestations block ! 0 = hd (attestations block)"
    by (simp add: hd_conv_nth)
  show ?thesis
    using assms False pp ne
    by (auto simp: validate_parent_block_proposer_def spec_proposer_rule_def Let_def hd
          bnd_eq_Inr split: if_splits)
qed


lemma trailing_bits_loop:
  "foldM (\<lambda>_ i. bnd (g i) (\<lambda>v. if v then Inl e else Inr ())) () xs = Inr ()
   \<Longrightarrow> \<forall>i\<in>set xs. g i = Inr False"
  by (induction xs) (auto simp: bnd_eq_Inr split: if_splits)

lemma trailing_positions_int:
  fixes M N I :: int
  assumes "N = (M + 7) div 8" "M \<le> I" "I < 8 * N"
  shows "M mod 8 \<noteq> 0 \<and> 0 \<le> I - M \<and> I - M \<le> 8 - M mod 8 - 1"
  using assms by presburger

lemma trailing_positions:
  assumes len: "int n = get_bitfield_length (int m)"
    and i: "m \<le> i" "i < 8 * n"
  shows "int m mod 8 \<noteq> 0 \<and> int i - int m \<in> set (py_range 0 (8 - int m mod 8))"
proof -
  have a: "int n = (int m + 7) div 8"
    using len by (simp add: get_bitfield_length_def)
  have b: "int m \<le> int i" "int i < 8 * int n"
    using i by simp_all
  from trailing_positions_int [OF a b] show ?thesis
    by (simp add: py_range_def)
qed

lemma validate_attestation_sound:
  assumes ok: "validate_attestation ext cs active att block parent_block config = Inr b"
  shows "spec_attestation_valid ext cs active att block parent_block config"
proof -
  have c1: "slot att \<le> slot_number parent_block"
    using ok by (auto simp: validate_attestation_def split: if_splits)
  have c2: "slot att \<ge> max (slot_number parent_block - cycle_length config + 1) 0"
    using ok c1 by (auto simp: validate_attestation_def split: if_splits)
  have c3: "justified_slot att \<le> last_justified_slot cs"
    using ok c1 c2 by (auto simp: validate_attestation_def split: if_splits)
  obtain jb where jb: "get_block_by_hash ext (chain active) (justified_block_hash att) = Some jb"
    using ok c1 c2 c3
    by (cases "get_block_by_hash ext (chain active) (justified_block_hash att)")
       (auto simp: validate_attestation_def)
  have c4: "slot_number jb = justified_slot att"
    using ok c1 c2 c3 jb by (auto simp: validate_attestation_def split: if_splits)
  have rest: "bnd (get_signed_parent_hashes ext active block att config) (\<lambda>parent_hashes.
              bnd (get_attestation_indices cs att config) (\<lambda>attestation_indices.
                if \<not> int (length (attester_bitfield att))
                      = get_bitfield_length (int (length attestation_indices))
                then Inl ValidationError
                else
                  let last_bit = int (length attestation_indices) in
                  bnd (if last_bit mod 8 \<noteq> 0
                       then foldM (\<lambda>_ i.
                              bnd (has_voted (attester_bitfield att) (last_bit + i)) (\<lambda>v.
                                if v then Inl ValidationError else Inr ()))
                              () (py_range 0 (8 - last_bit mod 8))
                       else Inr ()) (\<lambda>_.
                  bnd (comprehension
                         (\<lambda>(committee_index, validator_index).
                            has_voted (attester_bitfield att) committee_index)
                         (\<lambda>(committee_index, validator_index).
                            bnd (py_get (validators cs) validator_index) (\<lambda>v. Inr (pubkey v)))
                         (enumerate_int attestation_indices)) (\<lambda>pub_keys.
                  bnd (to_bytes (slot att) 8) (\<lambda>b1.
                  bnd (to_bytes (shard_id att) 2) (\<lambda>b2.
                  bnd (to_bytes (justified_slot att) 8) (\<lambda>b3.
                    let message = blake ext
                          (b1 @ concat parent_hashes @ b2 @ shard_block_hash att @ b3) in
                    if \<not> bls_verify ext message (bls_aggregate_pubs ext pub_keys)
                           (aggregate_sig att)
                    then Inl ValidationError
                    else Inr True))))))) = Inr b"
    using ok c1 c2 c3 jb c4 by (simp add: validate_attestation_def)
  then obtain ph where ph: "get_signed_parent_hashes ext active block att config = Inr ph"
    by (auto simp: bnd_eq_Inr)
  from rest ph obtain members where
    members: "get_attestation_indices cs att config = Inr members"
    by (auto simp: bnd_eq_Inr)
  have c5: "int (length (attester_bitfield att)) = get_bitfield_length (int (length members))"
    using rest ph members by (auto split: if_splits)
  from rest ph members c5 have
    tr: "(if int (length members) mod 8 \<noteq> 0
          then foldM (\<lambda>_ i.
                 bnd (has_voted (attester_bitfield att) (int (length members) + i)) (\<lambda>v.
                   if v then Inl ValidationError else Inr ()))
                 () (py_range 0 (8 - int (length members) mod 8))
          else Inr ()) = Inr ()"
    by (auto simp: bnd_eq_Inr Let_def)
  have c6: "\<forall>i \<in> {length members ..< 8 * length (attester_bitfield att)}.
              has_voted (attester_bitfield att) (int i) = Inr False"
  proof
    fix i assume "i \<in> {length members ..< 8 * length (attester_bitfield att)}"
    then have i: "length members \<le> i" "i < 8 * length (attester_bitfield att)" by auto
    from trailing_positions [OF c5 i]
    have m: "int (length members) mod 8 \<noteq> 0"
      and p: "int i - int (length members) \<in> set (py_range 0 (8 - int (length members) mod 8))"
      by auto
    from tr m have "foldM (\<lambda>_ i.
                 bnd (has_voted (attester_bitfield att) (int (length members) + i)) (\<lambda>v.
                   if v then Inl ValidationError else Inr ()))
                 () (py_range 0 (8 - int (length members) mod 8)) = Inr ()"
      by simp
    from trailing_bits_loop [OF this, rule_format, OF p]
    show "has_voted (attester_bitfield att) (int i) = Inr False" by simp
  qed
  from rest ph members c5 obtain pubs where
    pubs: "comprehension
             (\<lambda>(c, i). has_voted (attester_bitfield att) c)
             (\<lambda>(c, i). bnd (py_get (validators cs) i) (\<lambda>v. Inr (pubkey v)))
             (enumerate_int members) = Inr pubs"
    by (auto simp: bnd_eq_Inr Let_def)
  from rest ph members c5 pubs obtain b1 b2 b3 where
    bs: "to_bytes (slot att) 8 = Inr b1" "to_bytes (shard_id att) 2 = Inr b2"
        "to_bytes (justified_slot att) 8 = Inr b3"
    by (auto simp: bnd_eq_Inr Let_def)
  have c7: "bls_verify ext (blake ext (b1 @ concat ph @ b2 @ shard_block_hash att @ b3))
              (bls_aggregate_pubs ext pubs) (aggregate_sig att)"
    using rest ph members c5 pubs bs by (auto simp: bnd_eq_Inr Let_def split: if_splits)
  show ?thesis
    unfolding spec_attestation_valid_def
    using c1 c2 c3 jb c4 members c5 c6 ph pubs bs c7 by simp
qed



text \<open>After an attestation has been accepted, folding it into the vote cache cannot
  fail: every helper call of the fold was made, with the same arguments, by the
  validation.\<close>

lemma add_vote_loop_total:
  assumes "\<forall>m\<in>set ms. \<exists>b. has_voted (attester_bitfield att) (fst m) = Inr b
               \<and> (b \<longrightarrow> (\<exists>v. py_get (validators cs) (snd m) = Inr v))"
    and "c h \<noteq> None"
  shows "\<exists>c'. foldM (add_vote cs att h) c ms = Inr c' \<and> c' h \<noteq> None"
  using assms
proof (induction ms arbitrary: c)
  case Nil
  then show ?case by simp
next
  case (Cons m ms)
  obtain ci vi where m: "m = (ci, vi)" by (cases m)
  from Cons.prems(1) m obtain b where
    b: "has_voted (attester_bitfield att) ci = Inr b"
    and v: "b \<longrightarrow> (\<exists>v. py_get (validators cs) vi = Inr v)"
    by auto
  from Cons.prems(2) obtain entry where entry: "c h = Some entry" by auto
  have "\<exists>c1. add_vote cs att h c m = Inr c1 \<and> c1 h \<noteq> None"
    using b v entry by (auto simp: add_vote_def m dict_get_def)
  then obtain c1 where c1: "add_vote cs att h c m = Inr c1" "c1 h \<noteq> None" by blast
  have "\<forall>m\<in>set ms. \<exists>b. has_voted (attester_bitfield att) (fst m) = Inr b
               \<and> (b \<longrightarrow> (\<exists>v. py_get (validators cs) (snd m) = Inr v))"
    using Cons.prems(1) by simp
  then have "\<exists>c'. foldM (add_vote cs att h) c1 ms = Inr c' \<and> c' h \<noteq> None"
    using c1(2) by (rule Cons.IH)
  then obtain c' where "foldM (add_vote cs att h) c1 ms = Inr c'" "c' h \<noteq> None" by blast
  then show ?case using c1(1) by auto
qed

lemma get_updated_block_vote_cache_total:
  assumes "spec_attestation_valid ext cs active att block parent_block config"
  shows "\<exists>c'. get_updated_block_vote_cache ext cs active att block c config = Inr c'"
proof -
  from assms obtain members where
    members: "get_attestation_indices cs att config = Inr members"
    by (auto simp: spec_attestation_valid_def split: sum.splits)
  from assms members obtain ph where
    ph: "get_signed_parent_hashes ext active block att config = Inr ph"
    by (auto simp: spec_attestation_valid_def split: sum.splits)
  from assms members ph obtain pubs where
    pubs: "comprehension
             (\<lambda>(c, i). has_voted (attester_bitfield att) c)
             (\<lambda>(c, i). bnd (py_get (validators cs) i) (\<lambda>v. Inr (pubkey v)))
             (enumerate_int members) = Inr pubs"
    by (auto simp: spec_attestation_valid_def split: sum.splits)
  have voters: "\<forall>m\<in>set (enumerate_int members).
            \<exists>b. has_voted (attester_bitfield att) (fst m) = Inr b
               \<and> (b \<longrightarrow> (\<exists>v. py_get (validators cs) (snd m) = Inr v))"
  proof
    fix m assume "m \<in> set (enumerate_int members)"
    from comprehension_success [OF pubs this]
    show "\<exists>b. has_voted (attester_bitfield att) (fst m) = Inr b
               \<and> (b \<longrightarrow> (\<exists>v. py_get (validators cs) (snd m) = Inr v))"
      by (cases m) (auto simp: bnd_eq_Inr)
  qed
  have "\<exists>c'. foldM (\<lambda>new_cache h.
           if h \<in> set (oblique_parent_hashes att) then Inr new_cache
           else
             let cache1 =
                   (if new_cache h = None
                    then new_cache(h \<mapsto> \<lparr>voter_indices = {}, total_voter_deposits = 0\<rparr>)
                    else new_cache)
             in foldM (add_vote cs att h) cache1 (enumerate_int members))
         c hs = Inr c'" for hs
  proof (induction hs arbitrary: c)
    case Nil
    then show ?case by simp
  next
    case (Cons h hs)
    show ?case
    proof (cases "h \<in> set (oblique_parent_hashes att)")
      case True
      then show ?thesis using Cons.IH by simp
    next
      case False
      let ?c1 = "(if c h = None
                  then c(h \<mapsto> \<lparr>voter_indices = {}, total_voter_deposits = 0\<rparr>) else c)"
      have "?c1 h \<noteq> None" by simp
      with voters have "\<exists>c'. foldM (add_vote cs att h) ?c1 (enumerate_int members) = Inr c'
                          \<and> c' h \<noteq> None"
        by (rule add_vote_loop_total)
      then obtain c2 where "foldM (add_vote cs att h) ?c1 (enumerate_int members) = Inr c2"
        by blast
      then show ?thesis using False Cons.IH [of c2] by (simp add: Let_def)
    qed
  qed
  then show ?thesis
    using members ph by (simp add: get_updated_block_vote_cache_def)
qed

lemma attestation_loop_first_failure:
  assumes "\<forall>x\<in>set pre. \<exists>b. validate_attestation ext cs active x block parent_block config = Inr b"
    and "validate_attestation ext cs active a block parent_block config = Inl e"
  shows "foldM (\<lambda>new_block_vote_cache attestation.
             bnd (validate_attestation ext cs active attestation block parent_block config) (\<lambda>_.
               get_updated_block_vote_cache ext cs active attestation block
                 new_block_vote_cache config))
           c (pre @ a # post) = Inl e"
  using assms
proof (induction pre arbitrary: c)
  case Nil
  then show ?case by simp
next
  case (Cons x pre)
  from Cons.prems(1) obtain b where
    b: "validate_attestation ext cs active x block parent_block config = Inr b"
    by auto
  then have "spec_attestation_valid ext cs active x block parent_block config"
    by (rule validate_attestation_sound)
  from get_updated_block_vote_cache_total [OF this]
  obtain c1 where "get_updated_block_vote_cache ext cs active x block c config = Inr c1"
    by blast
  then show ?case
    using b Cons.IH [of c1] Cons.prems by simp
qed

lemma process_block_returns:
  assumes "process_block ext cs active block parent_block config = Inr active'"
  shows "spec_proposer_rule block parent_block cs config
         \<and> (\<forall>a\<in>set (attestations block).
               spec_attestation_valid ext cs active a block parent_block config)"
proof -
  from assms have p: "validate_parent_block_proposer block parent_block cs config = Inr ()"
    by (auto simp: process_block_def bnd_eq_Inr)
  from assms p obtain c' where
    loop: "foldM (\<lambda>new_block_vote_cache attestation.
             bnd (validate_attestation ext cs active attestation block parent_block config) (\<lambda>_.
               get_updated_block_vote_cache ext cs active attestation block
                 new_block_vote_cache config))
           (block_vote_cache active) (attestations block) = Inr c'"
    by (auto simp: process_block_def bnd_eq_Inr)
  have "\<forall>a\<in>set (attestations block).
               spec_attestation_valid ext cs active a block parent_block config"
  proof
    fix a assume "a \<in> set (attestations block)"
    from foldM_steps [OF loop this] obtain b where
      "validate_attestation ext cs active a block parent_block config = Inr b"
      by (auto simp: bnd_eq_Inr)
    then show "spec_attestation_valid ext cs active a block parent_block config"
      by (rule validate_attestation_sound)
  qed
  then show ?thesis
    using validate_parent_block_proposer_sound [OF p] by simp
qed

text \<open>No part of a bad block is accepted. The states are values here: the code mutates
  only deep copies and fresh lists, so the parent pair is what it was whatever the run
  does, and a run that raises returns no state. Whenever the block breaks the proposer
  rule (its slot is not 0 and it has no attestation, or its first attestation is not the
  proposer's) or one of its attestations violates a condition of the validation,
  \<open>compute_state_transition\<close> raises. The exception is the one of the first check that
  fails: that of \<open>validate_parent_block_proposer\<close>, or else that of the first attestation
  that \<open>validate_attestation\<close> rejects.\<close>

theorem compute_state_transition_rejects:
  "((\<not> spec_proposer_rule block parent_block cs config
     \<or> (\<exists>a\<in>set (attestations block).
          \<not> spec_attestation_valid ext cs (fill_recent_block_hashes active parent_block block)
              a block parent_block config))
    \<longrightarrow> (\<exists>e. compute_state_transition ext (cs, active) parent_block block config
               = Some (Inl e)))
   \<and> (\<forall>e. validate_parent_block_proposer block parent_block cs config = Inl e
        \<longrightarrow> compute_state_transition ext (cs, active) parent_block block config
              = Some (Inl e))
   \<and> (\<forall>pre a post e.
        validate_parent_block_proposer block parent_block cs config = Inr ()
        \<longrightarrow> attestations block = pre @ a # post
        \<longrightarrow> (\<forall>x\<in>set pre.
               validate_attestation ext cs (fill_recent_block_hashes active parent_block block)
                 x block parent_block config = Inr True)
        \<longrightarrow> validate_attestation ext cs (fill_recent_block_hashes active parent_block block)
              a block parent_block config = Inl e
        \<longrightarrow> compute_state_transition ext (cs, active) parent_block block config
              = Some (Inl e))"
proof (intro conjI allI impI)
  let ?a1 = "fill_recent_block_hashes active parent_block block"
  assume v: "\<not> spec_proposer_rule block parent_block cs config
     \<or> (\<exists>a\<in>set (attestations block).
          \<not> spec_attestation_valid ext cs ?a1 a block parent_block config)"
  show "\<exists>e. compute_state_transition ext (cs, active) parent_block block config = Some (Inl e)"
  proof (cases "process_block ext cs ?a1 block parent_block config")
    case (Inl e)
    then show ?thesis by (simp add: compute_state_transition_def Let_def)
  next
    case (Inr a2)
    from process_block_returns [OF Inr] v have False by blast
    then show ?thesis ..
  qed
next
  fix e
  assume "validate_parent_block_proposer block parent_block cs config = Inl e"
  then show "compute_state_transition ext (cs, active) parent_block block config = Some (Inl e)"
    by (simp add: compute_state_transition_def Let_def process_block_def)
next
  fix pre a post e
  let ?a1 = "fill_recent_block_hashes active parent_block block"
  assume p: "validate_parent_block_proposer block parent_block cs config = Inr ()"
    and atts: "attestations block = pre @ a # post"
    and pre: "\<forall>x\<in>set pre. validate_attestation ext cs ?a1 x block parent_block config = Inr True"
    and a: "validate_attestation ext cs ?a1 a block parent_block config = Inl e"
  have "\<forall>x\<in>set pre. \<exists>b. validate_attestation ext cs ?a1 x block parent_block config = Inr b"
    using pre by blast
  from attestation_loop_first_failure [OF this a, of "block_vote_cache ?a1" post]
  have "process_block ext cs ?a1 block parent_block config = Inl e"
    using p atts by (simp add: process_block_def)
  then show "compute_state_transition ext (cs, active) parent_block block config = Some (Inl e)"
    by (simp add: compute_state_transition_def Let_def)
qed

text \<open>Two blocks that are rejected with a ValidationError: the block without
  attestations, and the block whose second attestation is for a slot after the parent
  block's.\<close>

theorem compute_state_transition_rejects_example:
  "0 < slot_number block_empty
   \<and> attestations block_empty = []
   \<and> \<not> spec_proposer_rule block_empty block7 cs6 config0
   \<and> raised (compute_state_transition ext0 (cs6, active6) block7 block_empty config0)
       = Some ValidationError
   \<and> attestations block_bad = [att7, att_high]
   \<and> \<not> spec_attestation_valid ext0 cs6 (fill_recent_block_hashes active6 block7 block_bad)
         att_high block_bad block7 config0
   \<and> raised (compute_state_transition ext0 (cs6, active6) block7 block_bad config0)
       = Some ValidationError"
proof -
  note t = compute_state_transition_rejects [of _ block7 cs6 config0 ext0 active6]
  have s: "0 < slot_number block_empty" "attestations block_empty = []"
    by code_simp+
  have np: "\<not> spec_proposer_rule block_empty block7 cs6 config0"
    by code_simp
  have vp: "validate_parent_block_proposer block_empty block7 cs6 config0 = Inl ValidationError"
    by code_simp
  have r1: "compute_state_transition ext0 (cs6, active6) block7 block_empty config0
            = Some (Inl ValidationError)"
    using t [of block_empty] vp by blast
  have fails: "\<exists>e. compute_state_transition ext0 (cs6, active6) block7 block_empty config0
            = Some (Inl e)"
    using t [of block_empty] np by blast
  have atts: "attestations block_bad = [] @ [att7] @ att_high # []"
    by code_simp
  have atts': "attestations block_bad = [att7, att_high]"
    by code_simp
  have p: "validate_parent_block_proposer block_bad block7 cs6 config0 = Inr ()"
    by code_simp
  have v7: "validate_attestation ext0 cs6 (fill_recent_block_hashes active6 block7 block_bad)
              att7 block_bad block7 config0 = Inr True"
    by code_simp
  have vh: "validate_attestation ext0 cs6 (fill_recent_block_hashes active6 block7 block_bad)
              att_high block_bad block7 config0 = Inl ValidationError"
    by code_simp
  have nv: "\<not> spec_attestation_valid ext0 cs6 (fill_recent_block_hashes active6 block7 block_bad)
         att_high block_bad block7 config0"
    by code_simp
  have pre: "\<forall>x\<in>set [att7].
               validate_attestation ext0 cs6 (fill_recent_block_hashes active6 block7 block_bad)
                 x block_bad block7 config0 = Inr True"
    using v7 by simp
  have "validate_parent_block_proposer block_bad block7 cs6 config0 = Inr ()
        \<longrightarrow> attestations block_bad = [att7] @ att_high # []
        \<longrightarrow> (\<forall>x\<in>set [att7].
               validate_attestation ext0 cs6 (fill_recent_block_hashes active6 block7 block_bad)
                 x block_bad block7 config0 = Inr True)
        \<longrightarrow> validate_attestation ext0 cs6 (fill_recent_block_hashes active6 block7 block_bad)
              att_high block_bad block7 config0 = Inl ValidationError
        \<longrightarrow> compute_state_transition ext0 (cs6, active6) block7 block_bad config0
              = Some (Inl ValidationError)"
    using t [of block_bad] by blast
  then have r2: "compute_state_transition ext0 (cs6, active6) block7 block_bad config0
            = Some (Inl ValidationError)"
    using p atts' pre vh by simp
  show ?thesis
    using s np r1 atts' nv r2 by (simp add: raised_def)
qed

text \<open>The checks of the two validators raise ValidationError: for an attestation whose
  slot is out of range, whose justified slot is too new or whose justified block is
  missing or at another slot; for a bitfield of the wrong length; for a signature that
  does not verify, everything else being as in an accepted attestation; and for a block
  without attestations.\<close>

lemma validate_attestation_early_checks:
  assumes "\<not> slot att \<le> slot_number parent_block
           \<or> \<not> slot att \<ge> max (slot_number parent_block - cycle_length config + 1) 0
           \<or> justified_slot att > last_justified_slot cs
           \<or> get_block_by_hash ext (chain active) (justified_block_hash att) = None
           \<or> (\<exists>b. get_block_by_hash ext (chain active) (justified_block_hash att) = Some b
                  \<and> slot_number b \<noteq> justified_slot att)"
  shows "validate_attestation ext cs active att block parent_block config = Inl ValidationError"
  using assms by (auto simp: validate_attestation_def)

lemma validate_attestation_bitfield_length:
  assumes "get_signed_parent_hashes ext active block att config = Inr parent_hashes"
    and "get_attestation_indices cs att config = Inr members"
    and "int (length (attester_bitfield att)) \<noteq> get_bitfield_length (int (length members))"
  shows "validate_attestation ext cs active att block parent_block config = Inl ValidationError"
  using assms by (auto simp: validate_attestation_def split: option.splits)

lemma validate_attestation_signature:
  assumes "validate_attestation ext cs active att block parent_block config = Inr True"
  shows "validate_attestation (ext\<lparr>bls_verify := (\<lambda>_ _ _. False)\<rparr>) cs active att block
           parent_block config = Inl ValidationError"
proof -
  show ?thesis
    using assms
    by (auto simp: validate_attestation_def bnd_eq_Inr Let_def split: if_splits option.splits)
qed

lemma validate_parent_block_proposer_empty:
  assumes "slot_number block \<noteq> 0"
    and "get_proposer_position parent_block cs config = Inr position"
    and "attestations block = []"
  shows "validate_parent_block_proposer block parent_block cs config = Inl ValidationError"
  using assms by (cases position) (simp add: validate_parent_block_proposer_def)

text \<open>C6. A block with an attestation that violates a condition of the validation is to
  be rejected with a ValidationError, as the checks above do. The code rejects the block
  \<open>block_overflow\<close>, whose third attestation is for a slot after the parent block's, with
  an OverflowError: the message of the signature is built with
  \<open>attestation.shard_id.to_bytes(2, byteorder='big')\<close>, with no test of the range of the
  shard, and this raises for the second attestation, of the scheduled shard 70000,
  before the third is looked at.\<close>

theorem compute_state_transition_overflow:
  "attestations block_overflow = [att7, att_wide, att_high]
   \<and> slot_number block7 < slot att_high
   \<and> validate_attestation ext0 cs_wide (fill_recent_block_hashes active6 block7 block_overflow)
         att_high block_overflow block7 config_wide = Inl ValidationError
   \<and> validate_attestation ext0 cs_wide (fill_recent_block_hashes active6 block7 block_overflow)
         att7 block_overflow block7 config_wide = Inr True
   \<and> get_attestation_indices cs_wide att_wide config_wide = Inr [0]
   \<and> to_bytes (shard_id att_wide) 2 = Inl OverflowError
   \<and> validate_attestation ext0 cs_wide (fill_recent_block_hashes active6 block7 block_overflow)
         att_wide block_overflow block7 config_wide = Inl OverflowError
   \<and> raised (compute_state_transition ext0 (cs_wide, active6) block7 block_overflow config_wide)
       = Some OverflowError"
  by code_simp

end
